theory Spec2Isabelle
  imports Complex_Main
begin

section \<open>Dense arrays as the notebook uses them\<close>

text \<open>
  The frequency-tagging cells of the analysis notebook work on two-dimensional
  arrays (channels by columns) and on one-dimensional arrays of frequencies.
  A two-dimensional array is a record of its second extent and its rows; the
  first extent is the number of rows.  Floating-point numbers are modelled as
  reals, so rounding is outside the model.  Every exception the array library
  raises is a value of \<open>error\<close>, as is the interpreter's error for a name that
  is not bound; the mean of an empty selection, where the library yields
  not-a-number instead of a real, is the outcome \<open>NanMean\<close>.
\<close>

datatype error = IndexError | ZeroDivisionError | ValueError | NameError | NanMean

record array2 =
  shape1 :: nat
  chans :: "real list list"

definition shape0 :: "array2 \<Rightarrow> nat" where
  "shape0 a = length (chans a)"

definition well_shaped :: "array2 \<Rightarrow> bool" where
  "well_shaped a = list_all (\<lambda>r. length r = shape1 a) (chans a)"

definition zeros :: "nat \<Rightarrow> nat \<Rightarrow> array2" where
  "zeros c n = \<lparr>shape1 = n, chans = replicate c (replicate n 0)\<rparr>"

definition empty_like :: "array2 \<Rightarrow> array2" where
  \<comment> \<open>\<open>np.empty_like\<close> leaves the contents unspecified; the loops below assign
      every column before anything reads it, so zeros stand in for them.\<close>
  "empty_like a = zeros (shape0 a) (shape1 a)"

definition norm_index :: "nat \<Rightarrow> int \<Rightarrow> error + nat" where
  \<comment> \<open>An integer index into an axis of extent \<open>n\<close>: negative indices count from the end.\<close>
  "norm_index n j =
     (let k = (if j < 0 then j + int n else j)
      in if 0 \<le> k \<and> k < int n then Inr (nat k) else Inl IndexError)"

fun norm_indices :: "nat \<Rightarrow> int list \<Rightarrow> error + nat list" where
  "norm_indices n [] = Inr []"
| "norm_indices n (j # js) =
     (case norm_index n j of
        Inl e \<Rightarrow> Inl e
      | Inr k \<Rightarrow> (case norm_indices n js of Inl e \<Rightarrow> Inl e | Inr ks \<Rightarrow> Inr (k # ks)))"

definition take_cols :: "array2 \<Rightarrow> int list \<Rightarrow> error + array2" where
  \<comment> \<open>\<open>a[:, js]\<close> for an integer index array \<open>js\<close>.\<close>
  "take_cols a js =
     (case norm_indices (shape1 a) js of
        Inl e \<Rightarrow> Inl e
      | Inr ks \<Rightarrow> Inr \<lparr>shape1 = length ks, chans = map (\<lambda>r. map (\<lambda>k. r ! k) ks) (chans a)\<rparr>)"

definition col :: "array2 \<Rightarrow> nat \<Rightarrow> error + real list" where
  \<comment> \<open>\<open>a[:, i]\<close> for a non-negative index \<open>i\<close>.\<close>
  "col a i = (if i < shape1 a then Inr (map (\<lambda>r. r ! i) (chans a)) else Inl IndexError)"

definition set_col :: "array2 \<Rightarrow> nat \<Rightarrow> real list \<Rightarrow> error + array2" where
  \<comment> \<open>\<open>a[:, i] = v\<close> for a non-negative index \<open>i\<close>.\<close>
  "set_col a i v =
     (if \<not> i < shape1 a then Inl IndexError
      else if length v \<noteq> shape0 a then Inl ValueError
      else Inr (a\<lparr>chans := map2 (\<lambda>r x. r[i := x]) (chans a) v\<rparr>))"

definition mean_axis1 :: "array2 \<Rightarrow> error + real list" where
  \<comment> \<open>\<open>np.mean(a, axis=1)\<close>: one mean per row.\<close>
  "mean_axis1 a =
     (if shape1 a = 0 \<and> chans a \<noteq> [] then Inl NanMean
      else Inr (map (\<lambda>r. sum_list r / real (shape1 a)) (chans a)))"

fun assign_cols :: "(nat \<Rightarrow> error + real list) \<Rightarrow> nat list \<Rightarrow> array2 \<Rightarrow> error + array2" where
  \<comment> \<open>\<open>for i in is: out[:, i] = rhs(i)\<close>; the right-hand side is evaluated first.\<close>
  "assign_cols rhs [] out = Inr out"
| "assign_cols rhs (i # is) out =
     (case rhs i of
        Inl e \<Rightarrow> Inl e
      | Inr v \<Rightarrow> (case set_col out i v of Inl e \<Rightarrow> Inl e | Inr out' \<Rightarrow> assign_cols rhs is out'))"

definition shifted_inds :: "int list \<Rightarrow> nat \<Rightarrow> nat \<Rightarrow> int list" where
  \<comment> \<open>\<open>inds = bins + i; inds = inds[(inds >= 0) & (inds < n)]\<close>\<close>
  "shifted_inds bins i n = filter (\<lambda>j. 0 \<le> j \<and> j < int n) (map (\<lambda>b. b + int i) bins)"

section \<open>Baseline subtraction\<close>

definition reference_bins :: "int list" where
  "reference_bins = [-5, -4, -3, 3, 4, 5]"

definition baseline_mean :: "array2 \<Rightarrow> int list \<Rightarrow> int list \<Rightarrow> error + real list" where
  \<comment> \<open>\<open>np.mean(amp[:, reference_bins], axis=1)\<close>, evaluated where the local
      \<open>reference_inds\<close> holds the shifted, in-range indices of the current bin.\<close>
  "baseline_mean amp bins reference_inds =
     (case take_cols amp bins of
        Inl e \<Rightarrow> Inl e
      | Inr sel \<Rightarrow> mean_axis1 sel)"

definition baseline_rhs :: "array2 \<Rightarrow> int list \<Rightarrow> int list \<Rightarrow> nat \<Rightarrow> error + real list" where
  \<comment> \<open>\<open>amp[:, i] - np.mean(amp[:, reference_bins], axis=1)\<close>\<close>
  "baseline_rhs amp bins reference_inds i =
     (case col amp i of
        Inl e \<Rightarrow> Inl e
      | Inr x \<Rightarrow>
          (case baseline_mean amp bins reference_inds of
             Inl e \<Rightarrow> Inl e
           | Inr m \<Rightarrow> Inr (map2 (\<lambda>a b. a - b) x m)))"

definition clamp_negative :: "array2 \<Rightarrow> array2" where
  \<comment> \<open>\<open>sub_amp[sub_amp < 0] = 0\<close>\<close>
  "clamp_negative a = a\<lparr>chans := map (map (\<lambda>v. if v < 0 then 0 else v)) (chans a)\<rparr>"

definition baselineSubtract :: "array2 \<Rightarrow> int list \<Rightarrow> error + array2" where
  "baselineSubtract amp bins =
     (case assign_cols
             (\<lambda>i. baseline_rhs amp bins (shifted_inds bins i (shape1 amp)) i)
             [0..<shape1 amp] (empty_like amp) of
        Inl e \<Rightarrow> Inl e
      | Inr sub_amp \<Rightarrow> Inr (clamp_negative sub_amp))"

text \<open>
  The notebook's prose describes step 2 as subtracting from each frequency's
  amplitude the average amplitude of its neighbouring frequencies, and the loop
  computes the neighbours' indices in \<open>reference_inds\<close>.  The variant below
  follows that description: it differs from \<open>baselineSubtract\<close> only in
  averaging over \<open>reference_inds\<close>.
\<close>

definition shifted_baseline_rhs :: "array2 \<Rightarrow> int list \<Rightarrow> nat \<Rightarrow> error + real list" where
  "shifted_baseline_rhs amp reference_inds i =
     (case col amp i of
        Inl e \<Rightarrow> Inl e
      | Inr x \<Rightarrow>
          (case take_cols amp reference_inds of
             Inl e \<Rightarrow> Inl e
           | Inr sel \<Rightarrow>
               (case mean_axis1 sel of
                  Inl e \<Rightarrow> Inl e
                | Inr m \<Rightarrow> Inr (map2 (\<lambda>a b. a - b) x m))))"

definition baselineSubtract_shifted :: "array2 \<Rightarrow> int list \<Rightarrow> error + array2" where
  "baselineSubtract_shifted amp bins =
     (case assign_cols
             (\<lambda>i. shifted_baseline_rhs amp (shifted_inds bins i (shape1 amp)) i)
             [0..<shape1 amp] (empty_like amp) of
        Inl e \<Rightarrow> Inl e
      | Inr sub_amp \<Rightarrow> Inr (clamp_negative sub_amp))"

definition fixed_baseline :: "array2 \<Rightarrow> nat \<Rightarrow> real" where
  \<comment> \<open>The mean of channel \<open>c\<close> over bins \<open>F-5, F-4, F-3, 3, 4, 5\<close>.\<close>
  "fixed_baseline amp c =
     (let r = chans amp ! c; n = shape1 amp
      in (r ! (n - 5) + r ! (n - 4) + r ! (n - 3) + r ! 3 + r ! 4 + r ! 5) / 6)"

definition all_entries :: "(real \<Rightarrow> bool) \<Rightarrow> array2 \<Rightarrow> bool" where
  "all_entries P a = list_all (list_all P) (chans a)"

section \<open>Smoothing over neighbouring bins\<close>

definition bins_to_avg :: "int list" where
  "bins_to_avg = [-1, 0, 1]"

definition smooth_rhs :: "array2 \<Rightarrow> int list \<Rightarrow> error + real list" where
  \<comment> \<open>\<open>np.mean(sub_amp[:, inds_to_avg], axis=1)\<close>\<close>
  "smooth_rhs sub_amp inds_to_avg =
     (case take_cols sub_amp inds_to_avg of
        Inl e \<Rightarrow> Inl e
      | Inr sel \<Rightarrow> mean_axis1 sel)"

definition smooth :: "array2 \<Rightarrow> int list \<Rightarrow> nat \<Rightarrow> error + array2" where
  \<comment> \<open>\<open>len_freqs\<close> is \<open>len(freqs)\<close>, the second extent the notebook gives \<open>norm_amp\<close>.\<close>
  "smooth sub_amp bins len_freqs =
     assign_cols
       (\<lambda>i. smooth_rhs sub_amp (shifted_inds bins i (shape1 sub_amp)))
       [0..<shape1 sub_amp] (zeros (shape0 sub_amp) len_freqs)"

section \<open>The spectrum\<close>

text \<open>
  The library functions the FFT cell calls are modelled from their documented
  behaviour.  \<open>np.fft.fftfreq(n, d)\<close> computes \<open>val = 1.0 / (n * d)\<close> and returns
  \<open>[0, 1, ..., (n-1)//2, -(n//2), ..., -1] * val\<close>; the division raises for a zero
  divisor.  \<open>np.fft.fft(data, n, axis=1)\<close> refuses \<open>n < 1\<close>, crops or zero-pads each
  row to \<open>n\<close> samples and returns its discrete Fourier transform.
\<close>

definition fftfreq :: "nat \<Rightarrow> real \<Rightarrow> error + real list" where
  "fftfreq n d =
     (if real n * d = 0 then Inl ZeroDivisionError
      else let val = 1 / (real n * d); N = (n - 1) div 2 + 1
           in Inr (map (\<lambda>k. real k * val) [0..<N] @
                   map (\<lambda>k. real_of_int k * val) [- int (n div 2)..-1]))"

definition fft_abs :: "real list \<Rightarrow> nat \<Rightarrow> real list" where
  \<comment> \<open>The magnitudes of the \<open>n\<close>-point transform of one row.\<close>
  "fft_abs x n =
     map (\<lambda>k. cmod (\<Sum>t<n. of_real (if t < length x then x ! t else 0) *
                              cis (- 2 * pi * real k * real t / real n)))
         [0..<n]"

definition fft_abs_axis1 :: "array2 \<Rightarrow> nat \<Rightarrow> error + array2" where
  \<comment> \<open>\<open>np.abs(np.fft.fft(data, n=n, axis=1))\<close>\<close>
  "fft_abs_axis1 data n =
     (if n < 1 then Inl ValueError
      else Inr \<lparr>shape1 = n, chans = map (\<lambda>r. fft_abs r n) (chans data)\<rparr>)"

definition mask_elems :: "'a list \<Rightarrow> bool list \<Rightarrow> error + 'a list" where
  \<comment> \<open>\<open>xs[keep]\<close> for a boolean index array.\<close>
  "mask_elems xs keep =
     (if length keep \<noteq> length xs then Inl IndexError
      else Inr (map snd (filter fst (zip keep xs))))"

definition mask_cols :: "array2 \<Rightarrow> bool list \<Rightarrow> error + array2" where
  \<comment> \<open>\<open>a[:, keep]\<close> for a boolean index array.\<close>
  "mask_cols a keep =
     (if length keep \<noteq> shape1 a then Inl IndexError
      else Inr \<lparr>shape1 = length (filter (\<lambda>b. b) keep),
                chans = map (\<lambda>r. map snd (filter fst (zip keep r))) (chans a)\<rparr>)"

definition computeSpectrum :: "array2 \<Rightarrow> real \<Rightarrow> error + (real list \<times> array2)" where
  \<comment> \<open>The sampling rate is a Python float, so \<open>1/sampling_rate\<close> raises for zero.
      The same boolean index \<open>freqs >= 0\<close> selects the columns of \<open>amp\<close> and
      the entries of \<open>freqs\<close>.\<close>
  "computeSpectrum data sampling_rate =
     (let nfreqs = shape1 data
      in if sampling_rate = 0 then Inl ZeroDivisionError
         else
           (case fftfreq nfreqs (1 / sampling_rate) of
              Inl e \<Rightarrow> Inl e
            | Inr freqs \<Rightarrow>
                (case fft_abs_axis1 data nfreqs of
                   Inl e \<Rightarrow> Inl e
                 | Inr amp \<Rightarrow>
                     (case mask_cols amp (map (\<lambda>f. 0 \<le> f) freqs) of
                        Inl e \<Rightarrow> Inl e
                      | Inr amp' \<Rightarrow>
                          (case mask_elems freqs (map (\<lambda>f. 0 \<le> f) freqs) of
                             Inl e \<Rightarrow> Inl e
                           | Inr freqs' \<Rightarrow> Inr (freqs', amp'))))))"

section \<open>Amplitudes at the target frequencies\<close>

fun argmin_from :: "real \<Rightarrow> nat \<Rightarrow> nat \<Rightarrow> real list \<Rightarrow> nat" where
  \<comment> \<open>The scan of \<open>np.argmin\<close>: a later element replaces the best only when
      strictly smaller, so the first occurrence of the minimum wins.\<close>
  "argmin_from best bi k [] = bi"
| "argmin_from best bi k (x # xs) =
     (if x < best then argmin_from x k (Suc k) xs else argmin_from best bi (Suc k) xs)"

definition argmin :: "real list \<Rightarrow> error + nat" where
  "argmin xs = (case xs of [] \<Rightarrow> Inl ValueError | x # rest \<Rightarrow> Inr (argmin_from x 0 1 rest))"

fun target_loop ::
  "real list \<Rightarrow> array2 \<Rightarrow> (nat \<times> real) list \<Rightarrow> real list \<times> array2 \<Rightarrow> error + (real list \<times> array2)"
where
  "target_loop freqs amp [] st = Inr st"
| "target_loop freqs amp ((i, f) # rest) (closest_freqs, target_amp) =
     (case argmin (map (\<lambda>x. \<bar>x - f\<bar>) freqs) of
        Inl e \<Rightarrow> Inl e
      | Inr ind \<Rightarrow>
          (case col amp ind of
             Inl e \<Rightarrow> Inl e
           | Inr v \<Rightarrow>
               (case set_col target_amp i v of
                  Inl e \<Rightarrow> Inl e
                | Inr target_amp' \<Rightarrow>
                    target_loop freqs amp rest (closest_freqs[i := freqs ! ind], target_amp'))))"

definition nearestBinAmplitudes ::
  "real list \<Rightarrow> array2 \<Rightarrow> real list \<Rightarrow> error + (real list \<times> array2)"
where
  \<comment> \<open>\<open>np.empty\<close> leaves both result arrays unspecified; the loop assigns every
      element, so zeros stand in for them.\<close>
  "nearestBinAmplitudes freqs amp target_freqs =
     target_loop freqs amp (enumerate 0 target_freqs)
       (replicate (length target_freqs) 0, zeros (shape0 amp) (length target_freqs))"

definition first_minimum :: "real list \<Rightarrow> nat \<Rightarrow> bool" where
  \<comment> \<open>\<open>k\<close> is the lowest index at which \<open>xs\<close> takes its minimum.\<close>
  "first_minimum xs k \<longleftrightarrow>
     k < length xs \<and> list_all (\<lambda>x. xs ! k \<le> x) xs \<and> list_all (\<lambda>x. xs ! k < x) (take k xs)"

section \<open>The notebook's cells\<close>

text \<open>
  The cells of a notebook share the interpreter's names.  The workspace holds
  the three names the cells below hand on, each unbound until a cell assigns
  it.  A cell that raises stops there and leaves the names it has assigned so
  far: the FFT cell assigns \<open>freqs\<close> and \<open>amp\<close> before the normalisation loops
  run, and \<open>norm_amp\<close> after them.
\<close>

record workspace =
  ws_freqs :: "real list option"
  ws_amp :: "array2 option"
  ws_norm_amp :: "array2 option"

definition frequency_tagging_cell ::
  "workspace \<Rightarrow> array2 \<Rightarrow> real \<Rightarrow> error option \<times> workspace"
where
  \<comment> \<open>The FFT cell, run in workspace \<open>w\<close>: the error it stopped with, if any, and
      the workspace it leaves.  The smoothing loop cannot raise after a baseline
      subtraction that returned, so its error branch hands on the same workspace.\<close>
  "frequency_tagging_cell w data sampling_rate =
     (case computeSpectrum data sampling_rate of
        Inl e \<Rightarrow> (Some e, w)
      | Inr (fs, a) \<Rightarrow>
          (let w1 = w\<lparr>ws_freqs := Some fs, ws_amp := Some a\<rparr>
           in case baselineSubtract a reference_bins of
                Inl e \<Rightarrow> (Some e, w1)
              | Inr sub_amp \<Rightarrow>
                  (case smooth sub_amp bins_to_avg (length fs) of
                     Inl e \<Rightarrow> (Some e, w1)
                   | Inr n \<Rightarrow> (None, w1\<lparr>ws_norm_amp := Some n\<rparr>))))"

definition target_cell :: "workspace \<Rightarrow> real list \<Rightarrow> error + (real list \<times> array2)" where
  \<comment> \<open>The target-frequency cell reads \<open>amp\<close> and \<open>freqs\<close> from the workspace and
      no other name of the FFT cell.\<close>
  "target_cell w target_freqs =
     (case ws_amp w of
        None \<Rightarrow> Inl NameError
      | Some a \<Rightarrow>
          (case ws_freqs w of
             None \<Rightarrow> Inl NameError
           | Some fs \<Rightarrow> nearestBinAmplitudes fs a target_freqs))"

section \<open>Shapes and the column-assignment loop\<close>

lemma well_shaped_iff: "well_shaped a \<longleftrightarrow> (\<forall>c<shape0 a. length (chans a ! c) = shape1 a)"
  by (simp add: well_shaped_def shape0_def list_all_length)

lemma well_shaped_zeros: "well_shaped (zeros c n)"
  by (simp add: well_shaped_iff zeros_def shape0_def)

lemma shape_zeros: "shape0 (zeros c n) = c" "shape1 (zeros c n) = n"
  by (simp_all add: zeros_def shape0_def)

lemma entry_zeros: "c < m \<Longrightarrow> j < n \<Longrightarrow> chans (zeros m n) ! c ! j = 0"
  by (simp add: zeros_def)

lemma set_col_shape:
  assumes "set_col a i v = Inr a'"
  shows "shape1 a' = shape1 a" and "shape0 a' = shape0 a"
  using assms by (auto simp: set_col_def shape0_def split: if_splits)

lemma set_col_well_shaped:
  assumes "set_col a i v = Inr a'" and "well_shaped a"
  shows "well_shaped a'"
  using assms by (auto simp: set_col_def shape0_def well_shaped_iff split: if_splits)

lemma set_col_entry:
  assumes "set_col a i v = Inr a'" and "well_shaped a" and "c < shape0 a"
  shows "chans a' ! c ! j = (if j = i then v ! c else chans a ! c ! j)"
  using assms by (auto simp: set_col_def shape0_def well_shaped_iff split: if_splits)

lemma set_col_total:
  assumes "i < shape1 a" and "length v = shape0 a"
  shows "\<exists>a'. set_col a i v = Inr a'"
  using assms by (simp add: set_col_def)

lemma assign_cols_append:
  "assign_cols rhs (xs @ ys) out =
     (case assign_cols rhs xs out of Inl e \<Rightarrow> Inl e | Inr out' \<Rightarrow> assign_cols rhs ys out')"
  by (induction xs arbitrary: out) (auto split: sum.splits)

lemma assign_cols_upt:
  assumes "well_shaped out" and "n \<le> shape1 out"
    and "\<And>i. i < n \<Longrightarrow> rhs i = Inr (v i) \<and> length (v i) = shape0 out"
  shows "\<exists>out'. assign_cols rhs [0..<n] out = Inr out' \<and> shape1 out' = shape1 out \<and>
           shape0 out' = shape0 out \<and> well_shaped out' \<and>
           (\<forall>c<shape0 out. \<forall>j. chans out' ! c ! j = (if j < n then v j ! c else chans out ! c ! j))"
  using assms
proof (induction n)
  case 0
  then show ?case by simp
next
  case (Suc n)
  from Suc.prems have "n \<le> shape1 out" and rhs_n: "rhs n = Inr (v n)" and len_n: "length (v n) = shape0 out"
    by simp_all
  with Suc.IH [OF Suc.prems(1)] Suc.prems(3)
  obtain mid where mid: "assign_cols rhs [0..<n] out = Inr mid" "shape1 mid = shape1 out"
      "shape0 mid = shape0 out" "well_shaped mid"
      "\<forall>c<shape0 out. \<forall>j. chans mid ! c ! j = (if j < n then v j ! c else chans out ! c ! j)"
    by (metis less_Suc_eq)
  from Suc.prems(2) mid(2,3) len_n obtain out' where out': "set_col mid n (v n) = Inr out'"
    using set_col_total [of n mid "v n"] by auto
  have "assign_cols rhs [0..<Suc n] out = Inr out'"
    by (simp add: assign_cols_append mid(1) rhs_n out')
  moreover have "shape1 out' = shape1 out" "shape0 out' = shape0 out" "well_shaped out'"
    using set_col_shape [OF out'] set_col_well_shaped [OF out' mid(4)] mid(2,3) by simp_all
  moreover have "\<forall>c<shape0 out. \<forall>j. chans out' ! c ! j = (if j < Suc n then v j ! c else chans out ! c ! j)"
  proof (intro allI impI)
    fix c j assume c: "c < shape0 out"
    then have "chans out' ! c ! j = (if j = n then v n ! c else chans mid ! c ! j)"
      using set_col_entry [OF out' mid(4)] mid(3) by simp
    then show "chans out' ! c ! j = (if j < Suc n then v j ! c else chans out ! c ! j)"
      using mid(5) c by (auto simp: less_Suc_eq)
  qed
  ultimately show ?case by blast
qed

lemma assign_cols_shape:
  assumes "assign_cols rhs is out = Inr out'"
  shows "shape1 out' = shape1 out \<and> shape0 out' = shape0 out"
  using assms
  by (induction "is" arbitrary: out) (auto split: sum.splits dest: set_col_shape)

lemma assign_cols_well_shaped:
  assumes "assign_cols rhs is out = Inr out'" and "well_shaped out"
  shows "well_shaped out'"
  using assms
  by (induction "is" arbitrary: out) (auto split: sum.splits dest: set_col_well_shaped)

section \<open>What baseline subtraction computes\<close>

lemma norm_indices_bound:
  "norm_indices n js = Inr ks \<Longrightarrow> length ks = length js \<and> (\<forall>k\<in>set ks. k < n)"
  by (induction js arbitrary: ks)
     (auto simp: norm_index_def Let_def split: sum.splits if_splits)

lemma norm_indices_in_range:
  "(\<forall>j\<in>set js. 0 \<le> j \<and> j < int n) \<Longrightarrow> norm_indices n js = Inr (map nat js)"
  by (induction js) (auto simp: norm_index_def)

lemma norm_indices_shifted:
  "norm_indices n (shifted_inds bins i n) = Inr (map nat (shifted_inds bins i n))"
  by (rule norm_indices_in_range) (simp add: shifted_inds_def)

lemma norm_indices_reference_bins:
  "6 \<le> n \<Longrightarrow> norm_indices n reference_bins = Inr [n - 5, n - 4, n - 3, 3, 4, 5]"
  by (simp add: reference_bins_def norm_index_def nat_diff_distrib' )

lemma baseline_mean_fixed:
  assumes "6 \<le> shape1 amp"
  shows "baseline_mean amp reference_bins inds = Inr (map (fixed_baseline amp) [0..<shape0 amp])"
  using assms
  by (auto simp: baseline_mean_def take_cols_def norm_indices_reference_bins mean_axis1_def
      fixed_baseline_def shape0_def Let_def intro!: nth_equalityI)

lemma baseline_rhs_fixed:
  assumes "6 \<le> shape1 amp" and "i < shape1 amp"
  shows "baseline_rhs amp reference_bins inds i =
           Inr (map (\<lambda>c. chans amp ! c ! i - fixed_baseline amp c) [0..<shape0 amp])"
  using assms
  by (auto simp: baseline_rhs_def baseline_mean_fixed col_def shape0_def intro!: nth_equalityI)

lemma clamp_negative_shape:
  "shape1 (clamp_negative a) = shape1 a" "shape0 (clamp_negative a) = shape0 a"
  by (simp_all add: clamp_negative_def shape0_def)

lemma clamp_negative_well_shaped: "well_shaped a \<Longrightarrow> well_shaped (clamp_negative a)"
  by (simp add: well_shaped_iff clamp_negative_def shape0_def)

lemma clamp_negative_entry:
  "well_shaped a \<Longrightarrow> c < shape0 a \<Longrightarrow> i < shape1 a \<Longrightarrow>
     chans (clamp_negative a) ! c ! i = max 0 (chans a ! c ! i)"
  by (auto simp: well_shaped_iff clamp_negative_def shape0_def max_def)

lemma clamp_negative_nonneg: "all_entries (\<lambda>v. 0 \<le> v) (clamp_negative a)"
  by (auto simp: all_entries_def clamp_negative_def list_all_iff)

lemma baselineSubtract_well_shaped:
  assumes "baselineSubtract amp bins = Inr sub"
  shows "well_shaped sub \<and> shape1 sub = shape1 amp \<and> shape0 sub = shape0 amp"
proof -
  from assms obtain s where s: "assign_cols (\<lambda>i. baseline_rhs amp bins (shifted_inds bins i (shape1 amp)) i)
      [0..<shape1 amp] (empty_like amp) = Inr s" and sub: "sub = clamp_negative s"
    by (auto simp: baselineSubtract_def split: sum.splits)
  have "well_shaped s"
    using assign_cols_well_shaped [OF s] by (simp add: empty_like_def well_shaped_zeros)
  moreover have "shape1 s = shape1 amp \<and> shape0 s = shape0 amp"
    using assign_cols_shape [OF s] by (simp add: empty_like_def shape_zeros)
  ultimately show ?thesis
    by (simp add: sub clamp_negative_well_shaped clamp_negative_shape)
qed

lemma baselineSubtract_entries:
  assumes "well_shaped amp" and "6 \<le> shape1 amp"
  shows "\<exists>sub. baselineSubtract amp reference_bins = Inr sub \<and>
           shape1 sub = shape1 amp \<and> shape0 sub = shape0 amp \<and> well_shaped sub \<and>
           (\<forall>c<shape0 amp. \<forall>i<shape1 amp.
              chans sub ! c ! i = max 0 (chans amp ! c ! i - fixed_baseline amp c))"
proof -
  let ?rhs = "\<lambda>i. baseline_rhs amp reference_bins (shifted_inds reference_bins i (shape1 amp)) i"
  let ?v = "\<lambda>i. map (\<lambda>c. chans amp ! c ! i - fixed_baseline amp c) [0..<shape0 amp]"
  have "\<exists>s. assign_cols ?rhs [0..<shape1 amp] (empty_like amp) = Inr s \<and>
          shape1 s = shape1 (empty_like amp) \<and> shape0 s = shape0 (empty_like amp) \<and> well_shaped s \<and>
          (\<forall>c<shape0 (empty_like amp). \<forall>j. chans s ! c ! j =
              (if j < shape1 amp then ?v j ! c else chans (empty_like amp) ! c ! j))"
    by (rule assign_cols_upt)
       (simp_all add: empty_like_def well_shaped_zeros shape_zeros baseline_rhs_fixed [OF assms(2)])
  then obtain s where s: "assign_cols ?rhs [0..<shape1 amp] (empty_like amp) = Inr s"
      "shape1 s = shape1 amp" "shape0 s = shape0 amp" "well_shaped s"
      "\<forall>c<shape0 amp. \<forall>j. chans s ! c ! j =
          (if j < shape1 amp then ?v j ! c else chans (empty_like amp) ! c ! j)"
    by (auto simp: empty_like_def shape_zeros)
  have "baselineSubtract amp reference_bins = Inr (clamp_negative s)"
    by (simp add: baselineSubtract_def s(1))
  moreover have "\<forall>c<shape0 amp. \<forall>i<shape1 amp.
      chans (clamp_negative s) ! c ! i = max 0 (chans amp ! c ! i - fixed_baseline amp c)"
    using s(2-5) by (simp add: clamp_negative_entry)
  ultimately show ?thesis
    using s(2-4) by (simp add: clamp_negative_shape clamp_negative_well_shaped)
qed


section \<open>The initial contents of an assigned array do not matter\<close>

lemma array2_eqI:
  fixes a b :: array2
  assumes "well_shaped a" and "well_shaped b"
    and "shape1 a = shape1 b" and "shape0 a = shape0 b"
    and "\<And>c j. c < shape0 a \<Longrightarrow> j < shape1 a \<Longrightarrow> chans a ! c ! j = chans b ! c ! j"
  shows "a = b"
proof -
  have "chans a ! c = chans b ! c" if "c < shape0 a" for c
    using that assms by (intro nth_equalityI) (simp_all add: well_shaped_iff)
  then have "chans a = chans b"
    using assms(4) by (intro nth_equalityI) (simp_all add: shape0_def)
  with assms(3) show ?thesis by simp
qed

lemma assign_cols_overwrites:
  assumes "well_shaped o1" and "well_shaped o2"
    and "shape1 o1 = shape1 o2" and "shape0 o1 = shape0 o2"
    and "\<And>c j. c < shape0 o1 \<Longrightarrow> j < shape1 o1 \<Longrightarrow> j \<notin> set is \<Longrightarrow>
           chans o1 ! c ! j = chans o2 ! c ! j"
  shows "assign_cols rhs is o1 = assign_cols rhs is o2"
  using assms
proof (induction "is" arbitrary: o1 o2)
  case Nil
  then have "o1 = o2" by (intro array2_eqI) simp_all
  then show ?case by simp
next
  case (Cons i "is")
  show ?case
  proof (cases "rhs i")
    case (Inl e)
    then show ?thesis by simp
  next
    case (Inr v)
    show ?thesis
    proof (cases "i < shape1 o1 \<and> length v = shape0 o1")
      case False
      then show ?thesis
        using Cons.prems(3,4) Inr by (auto simp: set_col_def)
    next
      case True
      then obtain p1 p2 where p1: "set_col o1 i v = Inr p1" and p2: "set_col o2 i v = Inr p2"
        using set_col_total [of i o1 v] set_col_total [of i o2 v] Cons.prems(3,4) by auto
      have "assign_cols rhs is p1 = assign_cols rhs is p2"
      proof (rule Cons.IH)
        show "well_shaped p1" "well_shaped p2"
          using set_col_well_shaped [OF p1] set_col_well_shaped [OF p2] Cons.prems(1,2)
          by simp_all
        show "shape1 p1 = shape1 p2" "shape0 p1 = shape0 p2"
          using set_col_shape [OF p1] set_col_shape [OF p2] Cons.prems(3,4) by simp_all
        fix c j assume c: "c < shape0 p1" and j: "j < shape1 p1" and "j \<notin> set is"
        then have "j \<noteq> i \<longrightarrow> chans o1 ! c ! j = chans o2 ! c ! j"
          using Cons.prems(5) [of c j] set_col_shape [OF p1] by simp
        then show "chans p1 ! c ! j = chans p2 ! c ! j"
          using set_col_entry [OF p1 Cons.prems(1), of c j]
            set_col_entry [OF p2 Cons.prems(2), of c j] c
            set_col_shape [OF p1] Cons.prems(4)
          by simp
      qed
      then show ?thesis by (simp add: Inr p1 p2)
    qed
  qed
qed

lemma assign_cols_any_initial:
  assumes "well_shaped init" and "shape1 init = n" and "shape0 init = c"
  shows "assign_cols rhs [0..<n] init = assign_cols rhs [0..<n] (zeros c n)"
  using assms
  by (intro assign_cols_overwrites) (simp_all add: well_shaped_zeros shape_zeros)


section \<open>Properties carried through the loops\<close>

lemma all_entries_iff:
  "all_entries P a \<longleftrightarrow> (\<forall>r\<in>set (chans a). \<forall>v\<in>set r. P v)"
  by (simp add: all_entries_def list_all_iff)

lemma all_entries_zeros: "P 0 \<Longrightarrow> all_entries P (zeros c n)"
  by (simp add: all_entries_iff zeros_def)

lemma set_col_all_entries:
  assumes "set_col a i v = Inr a'" and "all_entries P a" and "list_all P v"
  shows "all_entries P a'"
proof -
  from assms(1) have a': "chans a' = map2 (\<lambda>r x. r[i := x]) (chans a) v"
    by (auto simp: set_col_def split: if_splits)
  have "\<forall>w\<in>set (r[i := x]). P w" if "(r, x) \<in> set (zip (chans a) v)" for r x
  proof -
    from that have "r \<in> set (chans a)" and "x \<in> set v"
      by (auto dest: set_zip_leftD set_zip_rightD)
    with assms(2,3) have "\<forall>w\<in>insert x (set r). P w"
      by (simp add: all_entries_iff list_all_iff)
    then show ?thesis
      using set_update_subset_insert [of r i x] by blast
  qed
  then show ?thesis
    by (auto simp: all_entries_iff a')
qed

lemma assign_cols_all_entries:
  assumes "assign_cols rhs is out = Inr out'" and "all_entries P out"
    and "\<And>i v. i \<in> set is \<Longrightarrow> rhs i = Inr v \<Longrightarrow> list_all P v"
  shows "all_entries P out'"
  using assms
proof (induction "is" arbitrary: out)
  case Nil
  then show ?case by simp
next
  case (Cons i "is")
  from Cons.prems(1) obtain v mid where v: "rhs i = Inr v" and mid: "set_col out i v = Inr mid"
      and rest: "assign_cols rhs is mid = Inr out'"
    by (auto split: sum.splits)
  have "list_all P v" by (rule Cons.prems(3) [of i]) (simp_all add: v)
  then have mid_ok: "all_entries P mid"
    by (rule set_col_all_entries [OF mid Cons.prems(2)])
  show ?case
  proof (rule Cons.IH [OF rest mid_ok])
    fix j w assume "j \<in> set is" and "rhs j = Inr w"
    then show "list_all P w" using Cons.prems(3) [of j w] by simp
  qed
qed

lemma take_cols_all_entries:
  assumes "take_cols a js = Inr sel" and "well_shaped a" and "all_entries P a"
  shows "all_entries P sel"
proof -
  from assms(1) obtain ks where ks: "norm_indices (shape1 a) js = Inr ks"
      and sel: "chans sel = map (\<lambda>r. map (\<lambda>k. r ! k) ks) (chans a)"
    by (auto simp: take_cols_def split: sum.splits)
  have "P (r ! k)" if "r \<in> set (chans a)" and "k \<in> set ks" for r k
  proof -
    from that(1) assms(2) have "length r = shape1 a"
      by (simp add: well_shaped_def list_all_iff)
    with that(2) norm_indices_bound [OF ks] have "r ! k \<in> set r" by simp
    with that(1) assms(3) show ?thesis by (simp add: all_entries_iff)
  qed
  then show ?thesis by (auto simp: all_entries_iff sel)
qed

lemma mean_axis1_nonneg:
  assumes "mean_axis1 a = Inr m" and "all_entries (\<lambda>v. 0 \<le> v) a"
  shows "list_all (\<lambda>v. 0 \<le> v) m"
  using assms
  by (auto simp: mean_axis1_def all_entries_iff list_all_iff split: if_splits
      intro!: divide_nonneg_nonneg sum_list_nonneg)

lemma mean_axis1_zero:
  assumes "mean_axis1 a = Inr m" and "all_entries (\<lambda>v. v = 0) a"
  shows "list_all (\<lambda>v. v = 0) m"
proof -
  have zero_sum: "sum_list r = 0" if "\<forall>v\<in>set r. v = 0" for r :: "real list"
    using that by (induction r) simp_all
  have "sum_list r = 0" if "r \<in> set (chans a)" for r
    using that assms(2) by (simp add: all_entries_iff zero_sum)
  with assms(1) show ?thesis
    by (auto simp: mean_axis1_def list_all_iff split: if_splits)
qed

lemma smooth_all_entries:
  assumes "smooth a offs n = Inr b" and "well_shaped a" and "all_entries P a" and "P 0"
    and "\<And>sel m. all_entries P sel \<Longrightarrow> mean_axis1 sel = Inr m \<Longrightarrow> list_all P m"
  shows "all_entries P b"
proof (rule assign_cols_all_entries)
  show "assign_cols (\<lambda>i. smooth_rhs a (shifted_inds offs i (shape1 a))) [0..<shape1 a]
          (zeros (shape0 a) n) = Inr b"
    using assms(1) by (simp add: smooth_def)
  show "all_entries P (zeros (shape0 a) n)"
    using assms(4) by (rule all_entries_zeros)
next
  fix i v
  assume "smooth_rhs a (shifted_inds offs i (shape1 a)) = Inr v"
  then obtain sel where sel: "take_cols a (shifted_inds offs i (shape1 a)) = Inr sel"
      and m: "mean_axis1 sel = Inr v"
    by (auto simp: smooth_rhs_def split: sum.splits)
  from take_cols_all_entries [OF sel assms(2,3)] m show "list_all P v"
    by (rule assms(5))
qed

lemma smooth_total:
  assumes "well_shaped a" and "0 \<in> set offs"
  shows "\<exists>b. smooth a offs (shape1 a) = Inr b \<and> shape1 b = shape1 a \<and> shape0 b = shape0 a"
proof -
  let ?inds = "\<lambda>i. shifted_inds offs i (shape1 a)"
  let ?v = "\<lambda>i. map (\<lambda>r. sum_list r / real (length (?inds i)))
                   (map (\<lambda>r. map (\<lambda>k. r ! k) (map nat (?inds i))) (chans a))"
  have "\<exists>b. assign_cols (\<lambda>i. smooth_rhs a (?inds i)) [0..<shape1 a] (zeros (shape0 a) (shape1 a)) = Inr b \<and>
          shape1 b = shape1 (zeros (shape0 a) (shape1 a)) \<and>
          shape0 b = shape0 (zeros (shape0 a) (shape1 a)) \<and> well_shaped b \<and>
          (\<forall>c<shape0 (zeros (shape0 a) (shape1 a)). \<forall>j. chans b ! c ! j =
              (if j < shape1 a then ?v j ! c else chans (zeros (shape0 a) (shape1 a)) ! c ! j))"
  proof (rule assign_cols_upt)
    fix i assume i: "i < shape1 a"
    with assms(2) have "int i \<in> set (?inds i)"
      by (force simp: shifted_inds_def)
    then have "?inds i \<noteq> []" by auto
    then show "smooth_rhs a (?inds i) = Inr (?v i) \<and>
                 length (?v i) = shape0 (zeros (shape0 a) (shape1 a))"
      by (simp add: smooth_rhs_def take_cols_def norm_indices_shifted mean_axis1_def
          zeros_def shape0_def)
  qed (simp_all add: well_shaped_zeros shape_zeros)
  then show ?thesis
    by (auto simp: smooth_def shape_zeros)
qed

lemma baseline_rhs_zero:
  assumes "baseline_rhs amp bins inds i = Inr v" and "well_shaped amp"
    and "all_entries (\<lambda>v. v = 0) amp"
  shows "list_all (\<lambda>v. v = 0) v"
proof -
  from assms(1) obtain x sel m where x: "col amp i = Inr x" and sel: "take_cols amp bins = Inr sel"
      and m: "mean_axis1 sel = Inr m" and v: "v = map2 (\<lambda>a b. a - b) x m"
    by (auto simp: baseline_rhs_def baseline_mean_def split: sum.splits)
  from x have i: "i < shape1 amp" and xv: "x = map (\<lambda>r. r ! i) (chans amp)"
    by (auto simp: col_def split: if_splits)
  have "\<forall>w\<in>set x. w = 0"
    using assms(2,3) i by (auto simp: xv all_entries_iff well_shaped_def list_all_iff)
  moreover have "\<forall>w\<in>set m. w = 0"
    using mean_axis1_zero [OF m take_cols_all_entries [OF sel assms(2,3)]]
    by (simp add: list_all_iff)
  ultimately have "a - b = 0" if "(a, b) \<in> set (zip x m)" for a b
    using set_zip_leftD [OF that] set_zip_rightD [OF that] by fastforce
  then show ?thesis
    by (force simp: v list_all_iff)
qed

lemma clamp_negative_zero:
  "all_entries (\<lambda>v. v = 0) a \<Longrightarrow> all_entries (\<lambda>v. v = 0) (clamp_negative a)"
  by (auto simp: all_entries_iff clamp_negative_def)

lemma baselineSubtract_zero:
  assumes "baselineSubtract amp bins = Inr sub" and "well_shaped amp"
    and "all_entries (\<lambda>v. v = 0) amp"
  shows "all_entries (\<lambda>v. v = 0) sub"
proof -
  from assms(1) obtain s where s: "assign_cols (\<lambda>i. baseline_rhs amp bins (shifted_inds bins i (shape1 amp)) i)
      [0..<shape1 amp] (empty_like amp) = Inr s" and sub: "sub = clamp_negative s"
    by (auto simp: baselineSubtract_def split: sum.splits)
  have "all_entries (\<lambda>v. v = 0) s"
    by (rule assign_cols_all_entries [OF s])
       (simp_all add: empty_like_def all_entries_zeros baseline_rhs_zero [OF _ assms(2,3)])
  then show ?thesis by (simp add: sub clamp_negative_zero)
qed

lemma baselineSubtract_no_bins:
  "shape1 amp = 0 \<Longrightarrow> baselineSubtract amp bins = Inr (clamp_negative (empty_like amp))"
  by (simp add: baselineSubtract_def)


section \<open>The frequency axis and the retained bins\<close>

lemma mask_filter: "map snd (filter fst (zip (map P xs) xs)) = filter P xs"
  by (induction xs) simp_all

lemma mask_count: "length (filter (\<lambda>b. b) (map P xs)) = length (filter P xs)"
  by (induction xs) simp_all

lemma mask_row_length:
  "length keep = length r \<Longrightarrow>
     length (filter fst (zip keep r)) = length (filter (\<lambda>b. b) keep)"
  by (induction keep r rule: list_induct2) simp_all

lemma mask_prefix:
  assumes "length r = length m1 + length m2" and "\<forall>b\<in>set m1. b" and "\<forall>b\<in>set m2. \<not> b"
  shows "map snd (filter fst (zip (m1 @ m2) r)) = take (length m1) r"
proof -
  have r: "r = take (length m1) r @ drop (length m1) r" by simp
  have l1: "length (take (length m1) r) = length m1" using assms(1) by simp
  have "zip (m1 @ m2) r = zip m1 (take (length m1) r) @ zip m2 (drop (length m1) r)"
    using zip_append [OF l1 [symmetric], of m2 "drop (length m1) r"] by simp
  moreover have "filter fst (zip m1 (take (length m1) r)) = zip m1 (take (length m1) r)"
    using assms(2) by (auto simp: filter_id_conv dest: set_zip_leftD)
  moreover have "filter fst (zip m2 (drop (length m1) r)) = []"
    using assms(3) by (auto simp: filter_empty_conv dest: set_zip_leftD)
  ultimately show ?thesis using l1 by simp
qed

lemma fftfreq_Inr:
  assumes "n \<noteq> 0" and "d \<noteq> 0"
  shows "fftfreq n d =
           Inr (map (\<lambda>k. real k * (1 / (real n * d))) [0..<(n - 1) div 2 + 1] @
                map (\<lambda>k. real_of_int k * (1 / (real n * d))) [- int (n div 2)..-1])"
  using assms by (simp add: fftfreq_def Let_def)

lemma fftfreq_length:
  assumes "fftfreq n d = Inr fs"
  shows "length fs = n \<and> fs \<noteq> [] \<and> n \<noteq> 0 \<and> d \<noteq> 0"
proof -
  from assms have n: "n \<noteq> 0" and d: "d \<noteq> 0"
    by (auto simp: fftfreq_def split: if_splits)
  have "(n - 1) div 2 + 1 + n div 2 = n" using n by presburger
  with assms show ?thesis
    using n d by (auto simp: fftfreq_Inr)
qed

lemma fftfreq_Inl: "fftfreq n d = Inl e \<Longrightarrow> e = ZeroDivisionError \<and> (n = 0 \<or> d = 0)"
  by (auto simp: fftfreq_def Let_def split: if_splits)

lemma fft_abs_length: "length (fft_abs r n) = n"
  by (simp add: fft_abs_def)

lemma fft_abs_axis1_shape:
  assumes "n \<noteq> 0"
  shows "\<exists>a. fft_abs_axis1 data n = Inr a \<and> shape1 a = n \<and> shape0 a = shape0 data \<and>
           well_shaped a \<and> chans a = map (\<lambda>r. fft_abs r n) (chans data)"
  using assms
  by (simp add: fft_abs_axis1_def shape0_def well_shaped_def list_all_iff fft_abs_length)

lemma computeSpectrum_Inr:
  assumes "shape1 data \<noteq> 0" and "sampling_rate \<noteq> 0"
  shows "\<exists>fs. fftfreq (shape1 data) (1 / sampling_rate) = Inr fs \<and>
           computeSpectrum data sampling_rate =
             Inr (filter (\<lambda>f. 0 \<le> f) fs,
                  \<lparr>shape1 = length (filter (\<lambda>f. 0 \<le> f) fs),
                   chans = map (\<lambda>r. map snd (filter fst (zip (map (\<lambda>f. 0 \<le> f) fs)
                                                     (fft_abs r (shape1 data)))))
                               (chans data)\<rparr>)"
proof -
  from assms obtain fs where fs: "fftfreq (shape1 data) (1 / sampling_rate) = Inr fs"
    by (simp add: fftfreq_Inr)
  then have len: "length fs = shape1 data" using fftfreq_length by blast
  from assms(1) obtain a where a: "fft_abs_axis1 data (shape1 data) = Inr a"
      "shape1 a = shape1 data" "chans a = map (\<lambda>r. fft_abs r (shape1 data)) (chans data)"
    using fft_abs_axis1_shape by blast
  show ?thesis
    using assms(2) fs a len
    by (simp add: computeSpectrum_def mask_cols_def mask_elems_def mask_filter comp_def)
qed

lemma computeSpectrum_Inl:
  assumes "shape1 data = 0 \<or> sampling_rate = 0"
  shows "computeSpectrum data sampling_rate = Inl ZeroDivisionError"
  using assms by (auto simp: computeSpectrum_def fftfreq_def)

lemma computeSpectrum_shape:
  assumes "computeSpectrum data sampling_rate = Inr (fs, a)"
  shows "length fs = shape1 a \<and> well_shaped a \<and> shape0 a = shape0 data \<and> fs \<noteq> []"
proof -
  have "\<not> (shape1 data = 0 \<or> sampling_rate = 0)"
  proof
    assume "shape1 data = 0 \<or> sampling_rate = 0"
    from computeSpectrum_Inl [OF this] assms show False by simp
  qed
  then have nz: "shape1 data \<noteq> 0" "sampling_rate \<noteq> 0" by auto
  from computeSpectrum_Inr [OF nz] assms obtain fs0 where
      fs0: "fftfreq (shape1 data) (1 / sampling_rate) = Inr fs0"
      and fs: "fs = filter (\<lambda>f. 0 \<le> f) fs0"
      and a: "a = \<lparr>shape1 = length (filter (\<lambda>f. 0 \<le> f) fs0),
                   chans = map (\<lambda>r. map snd (filter fst (zip (map (\<lambda>f. 0 \<le> f) fs0)
                                                     (fft_abs r (shape1 data)))))
                               (chans data)\<rparr>"
    by auto
  have len: "length fs0 = shape1 data" using fftfreq_length [OF fs0] by simp
  have "length (filter fst (zip (map (\<lambda>f. 0 \<le> f) fs0) (fft_abs r (shape1 data))))
          = length (filter (\<lambda>f. 0 \<le> f) fs0)" for r
    using mask_row_length [of "map (\<lambda>f. 0 \<le> f) fs0" "fft_abs r (shape1 data)"] len
    by (simp add: fft_abs_length comp_def)
  then have "well_shaped a"
    by (simp add: a well_shaped_def list_all_iff)
  moreover have "(0::real) \<in> set fs0"
    using fs0 nz by (force simp: fftfreq_Inr)
  then have "fs \<noteq> []"
    by (auto simp: fs filter_empty_conv)
  ultimately show ?thesis
    by (simp add: fs a shape0_def)
qed

lemma computeSpectrum_positive_rate:
  assumes "0 < shape1 data" and "0 < sampling_rate"
  shows "computeSpectrum data sampling_rate =
           Inr (map (\<lambda>k. real k * (sampling_rate / real (shape1 data)))
                    [0..<(shape1 data - 1) div 2 + 1],
                \<lparr>shape1 = (shape1 data - 1) div 2 + 1,
                 chans = map (\<lambda>r. take ((shape1 data - 1) div 2 + 1) (fft_abs r (shape1 data)))
                             (chans data)\<rparr>)"
proof -
  let ?n = "shape1 data"
  let ?N = "(?n - 1) div 2 + 1"
  define c where "c = 1 / (real ?n * (1 / sampling_rate))"
  let ?pos = "map (\<lambda>k. real k * c) [0..<?N]"
  let ?neg = "map (\<lambda>k. real_of_int k * c) [- int (?n div 2)..-1]"
  have val: "c = sampling_rate / real ?n" by (simp add: c_def)
  have vpos: "0 < c" using assms by (simp add: val)
  have pos: "\<forall>f\<in>set ?pos. 0 \<le> f" using vpos by auto
  have neg: "\<forall>f\<in>set ?neg. \<not> 0 \<le> f"
    using vpos by (auto simp: mult_less_0_iff not_le)
  have fs: "fftfreq ?n (1 / sampling_rate) = Inr (?pos @ ?neg)"
    using assms unfolding c_def by (intro fftfreq_Inr) simp_all
  have filt: "filter (\<lambda>f. 0 \<le> f) (?pos @ ?neg) = ?pos"
    using pos neg by (simp add: filter_id_conv filter_empty_conv)
  have lens: "?N + ?n div 2 = ?n" using assms(1) by presburger
  have row: "map snd (filter fst (zip (map (\<lambda>f. 0 \<le> f) (?pos @ ?neg)) (fft_abs r ?n)))
               = take ?N (fft_abs r ?n)" for r
  proof -
    have "map snd (filter fst (zip (map (\<lambda>f. 0 \<le> f) ?pos @ map (\<lambda>f. 0 \<le> f) ?neg) (fft_abs r ?n)))
            = take (length (map (\<lambda>f. 0 \<le> f) ?pos)) (fft_abs r ?n)"
    proof (rule mask_prefix)
      show "length (fft_abs r ?n) = length (map (\<lambda>f. 0 \<le> f) ?pos) + length (map (\<lambda>f. 0 \<le> f) ?neg)"
        using lens by (simp add: fft_abs_length)
      show "\<forall>b\<in>set (map (\<lambda>f. 0 \<le> f) ?pos). b" using pos by auto
      show "\<forall>b\<in>set (map (\<lambda>f. 0 \<le> f) ?neg). \<not> b" using neg by auto
    qed
    then show ?thesis by simp
  qed
  from computeSpectrum_Inr [of data sampling_rate] assms fs
  have "computeSpectrum data sampling_rate =
          Inr (filter (\<lambda>f. 0 \<le> f) (?pos @ ?neg),
               \<lparr>shape1 = length (filter (\<lambda>f. 0 \<le> f) (?pos @ ?neg)),
                chans = map (\<lambda>r. map snd (filter fst (zip (map (\<lambda>f. 0 \<le> f) (?pos @ ?neg))
                                                  (fft_abs r ?n))))
                            (chans data)\<rparr>)"
    by auto
  then show ?thesis
    unfolding filt row by (simp add: val)
qed


section \<open>The nearest bin\<close>

lemma first_minimum_iff:
  "first_minimum xs k \<longleftrightarrow>
     k < length xs \<and> (\<forall>j<length xs. xs ! k \<le> xs ! j) \<and> (\<forall>j<k. xs ! k < xs ! j)"
proof (cases "k < length xs")
  case True
  then show ?thesis
    by (auto simp: first_minimum_def list_all_length)
next
  case False
  then show ?thesis by (simp add: first_minimum_def)
qed

lemma argmin_from_first_minimum:
  assumes "first_minimum p bi"
  shows "first_minimum (p @ xs) (argmin_from (p ! bi) bi (length p) xs)"
  using assms
proof (induction xs arbitrary: p bi)
  case Nil
  then show ?case by simp
next
  case (Cons x xs)
  from Cons.prems have bi: "bi < length p" and le: "\<forall>j<length p. p ! bi \<le> p ! j"
      and lt: "\<forall>j<bi. p ! bi < p ! j"
    by (simp_all add: first_minimum_iff)
  show ?case
  proof (cases "x < p ! bi")
    case True
    have "first_minimum (p @ [x]) (length p)"
      using True le by (auto simp: first_minimum_iff nth_append)
    from Cons.IH [OF this] True show ?thesis by simp
  next
    case False
    have "first_minimum (p @ [x]) bi"
      using False bi le lt by (auto simp: first_minimum_iff nth_append)
    from Cons.IH [OF this] False bi show ?thesis by (simp add: nth_append)
  qed
qed

lemma argmin_first_minimum:
  assumes "xs \<noteq> []"
  shows "\<exists>k. argmin xs = Inr k \<and> first_minimum xs k"
proof -
  from assms obtain x rest where xs: "xs = x # rest" by (cases xs) auto
  have "first_minimum [x] 0" by (simp add: first_minimum_iff)
  from argmin_from_first_minimum [OF this, of rest] show ?thesis
    by (simp add: xs argmin_def)
qed

lemma nearest_exact:
  assumes "first_minimum (map (\<lambda>x. \<bar>x - f\<bar>) freqs) ind" and "f \<in> set freqs"
  shows "freqs ! ind = f"
proof -
  from assms(2) obtain j where j: "j < length freqs" "freqs ! j = f"
    by (auto simp: in_set_conv_nth)
  from assms(1) have ind: "ind < length freqs"
    by (simp add: first_minimum_iff)
  with assms(1) have "\<forall>j<length freqs. \<bar>freqs ! ind - f\<bar> \<le> \<bar>freqs ! j - f\<bar>"
    by (simp add: first_minimum_iff)
  with j have "\<bar>freqs ! ind - f\<bar> \<le> 0" by fastforce
  then show ?thesis by simp
qed

lemma target_loop_entries:
  assumes "freqs \<noteq> []" and "length freqs = shape1 amp"
    and "well_shaped ta" and "shape0 ta = shape0 amp" and "length cl = shape1 ta"
    and "k + length fs \<le> shape1 ta"
  shows "\<exists>cl' ta'. target_loop freqs amp (enumerate k fs) (cl, ta) = Inr (cl', ta') \<and>
           length cl' = length cl \<and> shape1 ta' = shape1 ta \<and> shape0 ta' = shape0 ta \<and>
           well_shaped ta' \<and>
           (\<forall>j. k \<le> j \<and> j < k + length fs \<longrightarrow>
              (\<forall>ind. argmin (map (\<lambda>x. \<bar>x - fs ! (j - k)\<bar>) freqs) = Inr ind \<longrightarrow>
                 cl' ! j = freqs ! ind \<and>
                 (\<forall>c<shape0 amp. chans ta' ! c ! j = chans amp ! c ! ind))) \<and>
           (\<forall>j. \<not> (k \<le> j \<and> j < k + length fs) \<longrightarrow>
              cl' ! j = cl ! j \<and> (\<forall>c<shape0 amp. chans ta' ! c ! j = chans ta ! c ! j))"
  using assms(3-6)
proof (induction fs arbitrary: k cl ta)
  case Nil
  then show ?case by simp
next
  case (Cons f fs)
  let ?d = "map (\<lambda>x. \<bar>x - f\<bar>) freqs"
  from assms(1) obtain ind where ind: "argmin ?d = Inr ind" and fm: "first_minimum ?d ind"
    using argmin_first_minimum [of ?d] by auto
  from fm have ind_lt: "ind < length freqs" by (simp add: first_minimum_iff)
  let ?v = "map (\<lambda>r. r ! ind) (chans amp)"
  have colv: "col amp ind = Inr ?v"
    using ind_lt assms(2) by (simp add: col_def)
  have k: "k < shape1 ta" using Cons.prems(4) by simp
  then obtain ta1 where ta1: "set_col ta k ?v = Inr ta1"
    using set_col_total [of k ta ?v] Cons.prems(2) by (auto simp: shape0_def)
  note sh = set_col_shape [OF ta1]
  have ws1: "well_shaped ta1" by (rule set_col_well_shaped [OF ta1 Cons.prems(1)])
  have e1: "chans ta1 ! c ! j = (if j = k then ?v ! c else chans ta ! c ! j)"
    if "c < shape0 amp" for c j
    using set_col_entry [OF ta1 Cons.prems(1)] that Cons.prems(2) by simp
  let ?cl1 = "cl[k := freqs ! ind]"
  have "\<exists>cl' ta'. target_loop freqs amp (enumerate (Suc k) fs) (?cl1, ta1) = Inr (cl', ta') \<and>
           length cl' = length ?cl1 \<and> shape1 ta' = shape1 ta1 \<and> shape0 ta' = shape0 ta1 \<and>
           well_shaped ta' \<and>
           (\<forall>j. Suc k \<le> j \<and> j < Suc k + length fs \<longrightarrow>
              (\<forall>ind. argmin (map (\<lambda>x. \<bar>x - fs ! (j - Suc k)\<bar>) freqs) = Inr ind \<longrightarrow>
                 cl' ! j = freqs ! ind \<and>
                 (\<forall>c<shape0 amp. chans ta' ! c ! j = chans amp ! c ! ind))) \<and>
           (\<forall>j. \<not> (Suc k \<le> j \<and> j < Suc k + length fs) \<longrightarrow>
              cl' ! j = ?cl1 ! j \<and> (\<forall>c<shape0 amp. chans ta' ! c ! j = chans ta1 ! c ! j))"
    using ws1 sh Cons.prems by (intro Cons.IH) simp_all
  then obtain cl' ta' where
      run: "target_loop freqs amp (enumerate (Suc k) fs) (?cl1, ta1) = Inr (cl', ta')"
      and shp: "length cl' = length cl" "shape1 ta' = shape1 ta" "shape0 ta' = shape0 ta"
        "well_shaped ta'"
      and later: "\<And>j ind'. Suc k \<le> j \<Longrightarrow> j < Suc k + length fs \<Longrightarrow>
          argmin (map (\<lambda>x. \<bar>x - fs ! (j - Suc k)\<bar>) freqs) = Inr ind' \<Longrightarrow>
          cl' ! j = freqs ! ind' \<and> (\<forall>c<shape0 amp. chans ta' ! c ! j = chans amp ! c ! ind')"
      and other: "\<And>j. \<not> (Suc k \<le> j \<and> j < Suc k + length fs) \<Longrightarrow>
          cl' ! j = ?cl1 ! j \<and> (\<forall>c<shape0 amp. chans ta' ! c ! j = chans ta1 ! c ! j)"
    using sh by auto
  have step: "target_loop freqs amp (enumerate k (f # fs)) (cl, ta) = Inr (cl', ta')"
    by (simp add: ind colv ta1 run)
  have here: "cl' ! j = freqs ! ind' \<and> (\<forall>c<shape0 amp. chans ta' ! c ! j = chans amp ! c ! ind')"
    if "k \<le> j" "j < k + length (f # fs)"
       "argmin (map (\<lambda>x. \<bar>x - (f # fs) ! (j - k)\<bar>) freqs) = Inr ind'" for j ind'
  proof (cases "j = k")
    case True
    with that(3) ind have "ind' = ind" by simp
    moreover have "cl' ! k = freqs ! ind"
      using other [of k] k Cons.prems(3) by simp
    moreover have "chans ta' ! c ! k = chans amp ! c ! ind" if "c < shape0 amp" for c
      using other [of k] e1 [OF that, of k] that by (simp add: shape0_def)
    ultimately show ?thesis using True by simp
  next
    case False
    with that have "Suc k \<le> j" "j < Suc k + length fs"
      and "(f # fs) ! (j - k) = fs ! (j - Suc k)"
      by (simp_all add: nth_Cons')
    with later [of j ind'] that(3) show ?thesis by simp
  qed
  have there: "cl' ! j = cl ! j \<and> (\<forall>c<shape0 amp. chans ta' ! c ! j = chans ta ! c ! j)"
    if "\<not> (k \<le> j \<and> j < k + length (f # fs))" for j
  proof -
    from that have "j \<noteq> k" and "\<not> (Suc k \<le> j \<and> j < Suc k + length fs)" by auto
    with other [of j] e1 show ?thesis by simp
  qed
  from step shp here there show ?case by blast
qed

lemma nearestBinAmplitudes_entries:
  assumes "freqs \<noteq> []" and "length freqs = shape1 amp"
  shows "\<exists>cl ta. nearestBinAmplitudes freqs amp tf = Inr (cl, ta) \<and>
           length cl = length tf \<and> shape1 ta = length tf \<and> shape0 ta = shape0 amp \<and>
           (\<forall>i<length tf. \<exists>ind. first_minimum (map (\<lambda>x. \<bar>x - tf ! i\<bar>) freqs) ind \<and>
              cl ! i = freqs ! ind \<and>
              col amp ind = Inr (map (\<lambda>r. r ! i) (chans ta)))"
proof -
  let ?cl0 = "replicate (length tf) (0::real)"
  let ?ta0 = "zeros (shape0 amp) (length tf)"
  have "\<exists>cl' ta'. target_loop freqs amp (enumerate 0 tf) (?cl0, ?ta0) = Inr (cl', ta') \<and>
           length cl' = length ?cl0 \<and> shape1 ta' = shape1 ?ta0 \<and> shape0 ta' = shape0 ?ta0 \<and>
           well_shaped ta' \<and>
           (\<forall>j. 0 \<le> j \<and> j < 0 + length tf \<longrightarrow>
              (\<forall>ind. argmin (map (\<lambda>x. \<bar>x - tf ! (j - 0)\<bar>) freqs) = Inr ind \<longrightarrow>
                 cl' ! j = freqs ! ind \<and>
                 (\<forall>c<shape0 amp. chans ta' ! c ! j = chans amp ! c ! ind))) \<and>
           (\<forall>j. \<not> (0 \<le> j \<and> j < 0 + length tf) \<longrightarrow>
              cl' ! j = ?cl0 ! j \<and> (\<forall>c<shape0 amp. chans ta' ! c ! j = chans ?ta0 ! c ! j))"
    using assms by (intro target_loop_entries) (simp_all add: well_shaped_zeros shape_zeros)
  then obtain cl ta where run: "nearestBinAmplitudes freqs amp tf = Inr (cl, ta)"
      and shp: "length cl = length tf" "shape1 ta = length tf" "shape0 ta = shape0 amp"
      and ent: "\<And>j ind. j < length tf \<Longrightarrow>
          argmin (map (\<lambda>x. \<bar>x - tf ! j\<bar>) freqs) = Inr ind \<Longrightarrow>
          cl ! j = freqs ! ind \<and> (\<forall>c<shape0 amp. chans ta ! c ! j = chans amp ! c ! ind)"
    by (auto simp: nearestBinAmplitudes_def shape_zeros)
  have "\<exists>ind. first_minimum (map (\<lambda>x. \<bar>x - tf ! i\<bar>) freqs) ind \<and> cl ! i = freqs ! ind \<and>
          col amp ind = Inr (map (\<lambda>r. r ! i) (chans ta))" if i: "i < length tf" for i
  proof -
    from assms(1) obtain ind where ind: "argmin (map (\<lambda>x. \<bar>x - tf ! i\<bar>) freqs) = Inr ind"
        and fm: "first_minimum (map (\<lambda>x. \<bar>x - tf ! i\<bar>) freqs) ind"
      using argmin_first_minimum [of "map (\<lambda>x. \<bar>x - tf ! i\<bar>) freqs"] by auto
    from fm have "ind < shape1 amp" using assms(2) by (simp add: first_minimum_iff)
    moreover have "map (\<lambda>r. r ! ind) (chans amp) = map (\<lambda>r. r ! i) (chans ta)"
      using ent [OF i ind] shp(3) by (auto simp: shape0_def intro!: nth_equalityI)
    ultimately have "col amp ind = Inr (map (\<lambda>r. r ! i) (chans ta))"
      by (simp add: col_def)
    with fm ent [OF i ind] show ?thesis by blast
  qed
  with run shp show ?thesis by blast
qed


lemma nearestBinAmplitudes_raw_entries:
  assumes "freqs \<noteq> []" and "length freqs = shape1 amp"
  shows "\<exists>cl ta. nearestBinAmplitudes freqs amp tf = Inr (cl, ta) \<and>
           length cl = length tf \<and> shape1 ta = length tf \<and> shape0 ta = shape0 amp \<and>
           well_shaped ta \<and>
           (\<forall>i<length tf. \<exists>ind. first_minimum (map (\<lambda>x. \<bar>x - tf ! i\<bar>) freqs) ind \<and>
              cl ! i = freqs ! ind \<and>
              (\<forall>c<shape0 amp. chans ta ! c ! i = chans amp ! c ! ind))"
proof -
  let ?cl0 = "replicate (length tf) (0::real)"
  let ?ta0 = "zeros (shape0 amp) (length tf)"
  have "\<exists>cl' ta'. target_loop freqs amp (enumerate 0 tf) (?cl0, ?ta0) = Inr (cl', ta') \<and>
           length cl' = length ?cl0 \<and> shape1 ta' = shape1 ?ta0 \<and> shape0 ta' = shape0 ?ta0 \<and>
           well_shaped ta' \<and>
           (\<forall>j. 0 \<le> j \<and> j < 0 + length tf \<longrightarrow>
              (\<forall>ind. argmin (map (\<lambda>x. \<bar>x - tf ! (j - 0)\<bar>) freqs) = Inr ind \<longrightarrow>
                 cl' ! j = freqs ! ind \<and>
                 (\<forall>c<shape0 amp. chans ta' ! c ! j = chans amp ! c ! ind))) \<and>
           (\<forall>j. \<not> (0 \<le> j \<and> j < 0 + length tf) \<longrightarrow>
              cl' ! j = ?cl0 ! j \<and> (\<forall>c<shape0 amp. chans ta' ! c ! j = chans ?ta0 ! c ! j))"
    using assms by (intro target_loop_entries) (simp_all add: well_shaped_zeros shape_zeros)
  then obtain cl ta where run: "nearestBinAmplitudes freqs amp tf = Inr (cl, ta)"
      and shp: "length cl = length tf" "shape1 ta = length tf" "shape0 ta = shape0 amp"
        "well_shaped ta"
      and ent: "\<And>j ind. j < length tf \<Longrightarrow>
          argmin (map (\<lambda>x. \<bar>x - tf ! j\<bar>) freqs) = Inr ind \<Longrightarrow>
          cl ! j = freqs ! ind \<and> (\<forall>c<shape0 amp. chans ta ! c ! j = chans amp ! c ! ind)"
    by (auto simp: nearestBinAmplitudes_def shape_zeros)
  have "\<exists>ind. first_minimum (map (\<lambda>x. \<bar>x - tf ! i\<bar>) freqs) ind \<and> cl ! i = freqs ! ind \<and>
          (\<forall>c<shape0 amp. chans ta ! c ! i = chans amp ! c ! ind)" if i: "i < length tf" for i
  proof -
    from assms(1) obtain ind where ind: "argmin (map (\<lambda>x. \<bar>x - tf ! i\<bar>) freqs) = Inr ind"
        and fm: "first_minimum (map (\<lambda>x. \<bar>x - tf ! i\<bar>) freqs) ind"
      using argmin_first_minimum [of "map (\<lambda>x. \<bar>x - tf ! i\<bar>) freqs"] by auto
    with ent [OF i ind] show ?thesis by blast
  qed
  with run shp show ?thesis by blast
qed

lemma smooth_after_baselineSubtract:
  assumes "baselineSubtract a reference_bins = Inr sub"
  shows "\<exists>n. smooth sub bins_to_avg (shape1 a) = Inr n"
proof -
  from baselineSubtract_well_shaped [OF assms]
  have ws: "well_shaped sub" and sh: "shape1 sub = shape1 a" by simp_all
  have "0 \<in> set bins_to_avg" by (simp add: bins_to_avg_def)
  from smooth_total [OF ws this] sh show ?thesis by auto
qed

lemma frequency_tagging_cell_keeps_spectrum:
  assumes "computeSpectrum data sampling_rate = Inr (fs, a)"
  shows "\<exists>err w. frequency_tagging_cell w0 data sampling_rate = (err, w) \<and>
           ws_freqs w = Some fs \<and> ws_amp w = Some a"
  by (auto simp: frequency_tagging_cell_def assms Let_def split: sum.splits)

subsection \<open>The transform of a signal with two impulses\<close>

lemma cis_minus_pi_mult: "cis (- (pi * real k)) = (- 1) ^ k"
proof -
  have "cis (real k * (- pi)) = cis (- pi) ^ k" by (simp only: DeMoivre)
  moreover have "cis (- pi) = - 1" by (simp add: complex_eq_iff)
  ultimately show ?thesis by (simp add: mult.commute)
qed

lemma fft_abs_two_impulses:
  "fft_abs (a # replicate m 0 @ b # replicate m 0) (2 * Suc m) =
     map (\<lambda>k. \<bar>a + b * (- 1) ^ k\<bar>) [0..<2 * Suc m]"
proof -
  let ?x = "a # replicate m 0 @ b # replicate m 0"
  let ?n = "2 * Suc m"
  let ?f = "\<lambda>k t. complex_of_real (if t < length ?x then ?x ! t else 0) *
                    cis (- 2 * pi * real k * real t / real ?n)"
  have zero: "?f k t = 0" if "t \<notin> {0, Suc m}" for k t
  proof (cases "t < length ?x")
    case True
    with that have "?x ! t = 0"
      by (cases t) (auto simp: nth_append nth_Cons')
    then show ?thesis by simp
  next
    case False
    then show ?thesis by simp
  qed
  have "(\<Sum>t<?n. ?f k t) = complex_of_real (a + b * (- 1) ^ k)" for k
  proof -
    have "(\<Sum>t<?n. ?f k t) = (\<Sum>t\<in>{0, Suc m}. ?f k t)"
    proof (rule sum.mono_neutral_right)
      show "\<forall>t\<in>{..<?n} - {0, Suc m}. ?f k t = 0" using zero by blast
    qed simp_all
    also have "\<dots> = ?f k 0 + ?f k (Suc m)" by simp
    also have "?f k 0 = complex_of_real a" by simp
    also have "?f k (Suc m) = complex_of_real b * cis (- (pi * real k))"
    proof -
      have "- 2 * pi * real k * real (Suc m) / real ?n = - (pi * real k)"
        by (simp add: field_simps)
      moreover have "?x ! Suc m = b" by (simp add: nth_append)
      ultimately show ?thesis by simp
    qed
    finally show ?thesis by (simp add: cis_minus_pi_mult)
  qed
  then have "cmod (\<Sum>t<?n. ?f k t) = \<bar>a + b * (- 1) ^ k\<bar>" for k
    by (simp only: norm_of_real)
  then show ?thesis
    unfolding fft_abs_def by simp
qed

lemma computeSpectrum_two_impulses:
  "computeSpectrum \<lparr>shape1 = 12, chans = [[3, 0, 0, 0, 0, 0, 1, 0, 0, 0, 0, 0]]\<rparr> 12
     = Inr ([0, 1, 2, 3, 4, 5], \<lparr>shape1 = 6, chans = [[4, 2, 4, 2, 4, 2]]\<rparr>)"
proof -
  let ?D = "\<lparr>shape1 = 12, chans = [[3, 0, 0, 0, 0, 0, 1, 0, 0, 0, 0, 0]]\<rparr> :: array2"
  have u6: "[0..<6] = [0, 1, 2, 3, 4, 5]"
    by (simp add: upt_rec)
  have row: "[3, 0, 0, 0, 0, 0, 1, 0, 0, 0, 0, 0] = (3::real) # replicate 5 0 @ 1 # replicate 5 0"
    by (simp add: eval_nat_numeral)
  have "fft_abs [3, 0, 0, 0, 0, 0, 1, 0, 0, 0, 0, 0] (2 * Suc 5)
          = map (\<lambda>k. \<bar>3 + 1 * (- 1) ^ k\<bar>) [0..<2 * Suc 5]"
    unfolding row by (rule fft_abs_two_impulses)
  then have "take 6 (fft_abs [3, 0, 0, 0, 0, 0, 1, 0, 0, 0, 0, 0] (2 * Suc 5))
          = map (\<lambda>k. \<bar>3 + 1 * (- 1) ^ k\<bar>) [0..<6]"
    by (simp add: take_map)
  then have amp: "take 6 (fft_abs [3, 0, 0, 0, 0, 0, 1, 0, 0, 0, 0, 0] 12) = [4, 2, 4, 2, 4, 2]"
    by (simp add: u6)
  have n: "(shape1 ?D - 1) div 2 + 1 = 6" by simp
  have freqs: "map (\<lambda>k. real k * (12 / real (shape1 ?D))) [0..<6] = [0, 1, 2, 3, 4, 5]"
    by (simp add: u6)
  have "computeSpectrum ?D 12 =
          Inr (map (\<lambda>k. real k * (12 / real (shape1 ?D))) [0..<(shape1 ?D - 1) div 2 + 1],
               \<lparr>shape1 = (shape1 ?D - 1) div 2 + 1,
                chans = map (\<lambda>r. take ((shape1 ?D - 1) div 2 + 1) (fft_abs r (shape1 ?D)))
                            (chans ?D)\<rparr>)"
    by (rule computeSpectrum_positive_rate) simp_all
  then show ?thesis
    unfolding n freqs by (simp add: amp)
qed

lemma computeSpectrum_one_sample:
  "computeSpectrum \<lparr>shape1 = 1, chans = [[3]]\<rparr> 1 = Inr ([0], \<lparr>shape1 = 1, chans = [[3]]\<rparr>)"
  by (simp add: computeSpectrum_def fftfreq_def fft_abs_axis1_def fft_abs_def mask_cols_def
      mask_elems_def)

section \<open>The claims\<close>

text \<open>
  Claim C1.  The documented procedure estimates the baseline of bin \<open>i\<close> as the
  mean over the in-range bins at \<open>i + referenceOffsets\<close>.  The code does not:
  on one channel \<open>[0, 0, 0, 10, 0, 0, 0]\<close> with the notebook's reference bins it
  subtracts \<open>10 / 3\<close> at bin 3 and leaves \<open>20 / 3\<close>, where averaging over the
  shifted in-range bins 0 and 6 subtracts 0 and leaves 10.
\<close>

theorem baselineSubtract_differs_from_shifted:
  "baselineSubtract \<lparr>shape1 = 7, chans = [[0, 0, 0, 10, 0, 0, 0]]\<rparr> reference_bins
     = Inr \<lparr>shape1 = 7, chans = [[0, 0, 0, 20 / 3, 0, 0, 0]]\<rparr> \<and>
   baselineSubtract_shifted \<lparr>shape1 = 7, chans = [[0, 0, 0, 10, 0, 0, 0]]\<rparr> reference_bins
     = Inr \<lparr>shape1 = 7, chans = [[0, 0, 0, 10, 0, 0, 0]]\<rparr>"
  by code_simp

text \<open>
  Claim C2.  For a well-shaped amplitude matrix with at least six bins, the mean
  that \<open>baselineSubtract\<close> subtracts is, for each channel, the mean over bins
  \<open>F-5, F-4, F-3, 3, 4, 5\<close>: it is the same whatever the shifted indices of the
  current bin are, and every entry of the result is the entry of \<open>amp\<close> minus
  that per-channel constant, clamped at zero.
\<close>

theorem baselineSubtract_fixed_reference:
  assumes "well_shaped amp" and "6 \<le> shape1 amp"
  shows "(\<forall>inds. baseline_mean amp reference_bins inds =
                    Inr (map (fixed_baseline amp) [0..<shape0 amp])) \<and>
         (\<exists>sub. baselineSubtract amp reference_bins = Inr sub \<and>
                 shape1 sub = shape1 amp \<and> shape0 sub = shape0 amp \<and>
                 (\<forall>c<shape0 amp. \<forall>i<shape1 amp.
                    chans sub ! c ! i = max 0 (chans amp ! c ! i - fixed_baseline amp c)))"
proof
  show "\<forall>inds. baseline_mean amp reference_bins inds =
                  Inr (map (fixed_baseline amp) [0..<shape0 amp])"
    using assms(2) by (simp add: baseline_mean_fixed)
next
  from baselineSubtract_entries [OF assms]
  show "\<exists>sub. baselineSubtract amp reference_bins = Inr sub \<and>
                 shape1 sub = shape1 amp \<and> shape0 sub = shape0 amp \<and>
                 (\<forall>c<shape0 amp. \<forall>i<shape1 amp.
                    chans sub ! c ! i = max 0 (chans amp ! c ! i - fixed_baseline amp c))"
    by blast
qed

theorem baselineSubtract_fixed_reference_witness:
  "well_shaped \<lparr>shape1 = 7, chans = [[0, 0, 0, 10, 0, 0, 0]]\<rparr> \<and>
   6 \<le> shape1 \<lparr>shape1 = 7, chans = [[0, 0, 0, 10, 0, 0, 0]]\<rparr> \<and>
   (\<forall>inds. baseline_mean \<lparr>shape1 = 7, chans = [[0, 0, 0, 10, 0, 0, 0]]\<rparr> reference_bins inds
              = Inr [10 / 3]) \<and>
   (\<exists>sub. baselineSubtract \<lparr>shape1 = 7, chans = [[0, 0, 0, 10, 0, 0, 0]]\<rparr> reference_bins = Inr sub \<and>
           chans sub ! 0 ! 3 = 20 / 3 \<and> chans sub ! 0 ! 2 = 0)"
proof -
  let ?A = "\<lparr>shape1 = 7, chans = [[0, 0, 0, 10, 0, 0, 0]]\<rparr> :: array2"
  have w: "well_shaped ?A" by (simp add: well_shaped_def)
  have n: "6 \<le> shape1 ?A" by simp
  have fb: "fixed_baseline ?A 0 = 10 / 3" by (simp add: fixed_baseline_def)
  from baselineSubtract_fixed_reference [OF w n] fb
  show ?thesis using w by (auto simp: shape0_def)
qed

text \<open>
  Claim C3.  On the single channel \<open>[0, 0, 0, 10, 0, 0, 0]\<close> with reference offsets
  \<open>-3, -2, -1, 1, 2, 3\<close> the scenario expects a baseline of 0 at bin 3 and the
  value 10 there.  The code averages the columns at the offsets themselves, bins
  4, 5, 6, 1, 2 and 3, so the baseline is \<open>10 / 6\<close> and bin 3 holds \<open>25 / 3\<close>.
\<close>

theorem baselineSubtract_scenario_value:
  "baseline_mean \<lparr>shape1 = 7, chans = [[0, 0, 0, 10, 0, 0, 0]]\<rparr> [-3, -2, -1, 1, 2, 3]
       (shifted_inds [-3, -2, -1, 1, 2, 3] 3 7) = Inr [5 / 3] \<and>
   baselineSubtract \<lparr>shape1 = 7, chans = [[0, 0, 0, 10, 0, 0, 0]]\<rparr> [-3, -2, -1, 1, 2, 3]
     = Inr \<lparr>shape1 = 7, chans = [[0, 0, 0, 25 / 3, 0, 0, 0]]\<rparr>"
  by code_simp

text \<open>
  Claim C4, as stated, fails: with a negative sampling rate the FFT cell raises
  nothing.  On two samples and the rate \<open>-1\<close> it returns the frequency axis
  \<open>[0, 1/2]\<close>.
\<close>

theorem computeSpectrum_negative_rate_returns:
  "map_sum id fst (computeSpectrum \<lparr>shape1 = 2, chans = [[1, 2]]\<rparr> (- 1)) = Inr [0, 1 / 2]"
proof -
  have "fftfreq 2 (1 / (- 1)) = Inr [0, 1 / 2]"
    by (simp add: fftfreq_def Let_def upto_rec1 upt_rec)
  with computeSpectrum_Inr [of "\<lparr>shape1 = 2, chans = [[1, 2]]\<rparr>" "- 1"]
  show ?thesis by auto
qed

text \<open>
  Claim C4, amended.  The FFT cell validates nothing and has no error of its own:
  it fails exactly when there are no samples or the sampling rate is zero, with
  the division by zero of the frequency axis, and returns a frequency axis and
  an amplitude matrix otherwise, negative sampling rates included.
\<close>

theorem computeSpectrum_failure_cases:
  "(shape1 data = 0 \<or> sampling_rate = 0 \<longrightarrow>
      computeSpectrum data sampling_rate = Inl ZeroDivisionError) \<and>
   (shape1 data \<noteq> 0 \<and> sampling_rate \<noteq> 0 \<longrightarrow>
      (\<exists>freqs amp. computeSpectrum data sampling_rate = Inr (freqs, amp)))"
  using computeSpectrum_Inl [of data sampling_rate] computeSpectrum_Inr [of data sampling_rate]
  by blast

theorem computeSpectrum_failure_cases_witness:
  "computeSpectrum \<lparr>shape1 = 0, chans = [[]]\<rparr> 250 = Inl ZeroDivisionError \<and>
   computeSpectrum \<lparr>shape1 = 2, chans = [[1, 2]]\<rparr> 0 = Inl ZeroDivisionError \<and>
   (\<exists>freqs amp. computeSpectrum \<lparr>shape1 = 2, chans = [[1, 2]]\<rparr> 250 = Inr (freqs, amp)) \<and>
   (\<exists>freqs amp. computeSpectrum \<lparr>shape1 = 2, chans = [[1, 2]]\<rparr> (- 1) = Inr (freqs, amp))"
  using computeSpectrum_failure_cases [of "\<lparr>shape1 = 0, chans = [[]]\<rparr>" 250]
    computeSpectrum_failure_cases [of "\<lparr>shape1 = 2, chans = [[1, 2]]\<rparr>" 0]
    computeSpectrum_failure_cases [of "\<lparr>shape1 = 2, chans = [[1, 2]]\<rparr>" 250]
    computeSpectrum_failure_cases [of "\<lparr>shape1 = 2, chans = [[1, 2]]\<rparr>" "- 1"]
  by simp

text \<open>
  Claim C5.  For a non-empty frequency axis as long as the amplitude matrix is
  wide, \<open>nearestBinAmplitudes\<close> returns, for every target frequency, the
  frequency and the amplitude column of the lowest-indexed bin whose frequency
  is nearest to the target; a target that occurs in the axis is returned itself.
\<close>

theorem nearestBinAmplitudes_first_nearest_bin:
  assumes "freqs \<noteq> []" and "length freqs = shape1 amp"
  shows "\<exists>closest_freqs target_amp.
           nearestBinAmplitudes freqs amp target_freqs = Inr (closest_freqs, target_amp) \<and>
           length closest_freqs = length target_freqs \<and>
           shape1 target_amp = length target_freqs \<and> shape0 target_amp = shape0 amp \<and>
           (\<forall>i<length target_freqs.
              \<exists>ind. first_minimum (map (\<lambda>x. \<bar>x - target_freqs ! i\<bar>) freqs) ind \<and>
                closest_freqs ! i = freqs ! ind \<and>
                col amp ind = Inr (map (\<lambda>r. r ! i) (chans target_amp)) \<and>
                (target_freqs ! i \<in> set freqs \<longrightarrow> closest_freqs ! i = target_freqs ! i))"
proof -
  from nearestBinAmplitudes_entries [OF assms, of target_freqs]
  obtain cl ta where run: "nearestBinAmplitudes freqs amp target_freqs = Inr (cl, ta)"
      and shp: "length cl = length target_freqs" "shape1 ta = length target_freqs"
        "shape0 ta = shape0 amp"
      and ent: "\<forall>i<length target_freqs.
          \<exists>ind. first_minimum (map (\<lambda>x. \<bar>x - target_freqs ! i\<bar>) freqs) ind \<and>
            cl ! i = freqs ! ind \<and> col amp ind = Inr (map (\<lambda>r. r ! i) (chans ta))"
    by blast
  have "\<exists>ind. first_minimum (map (\<lambda>x. \<bar>x - target_freqs ! i\<bar>) freqs) ind \<and>
          cl ! i = freqs ! ind \<and> col amp ind = Inr (map (\<lambda>r. r ! i) (chans ta)) \<and>
          (target_freqs ! i \<in> set freqs \<longrightarrow> cl ! i = target_freqs ! i)"
    if "i < length target_freqs" for i
  proof -
    from ent that obtain ind where
        ind: "first_minimum (map (\<lambda>x. \<bar>x - target_freqs ! i\<bar>) freqs) ind"
          "cl ! i = freqs ! ind" "col amp ind = Inr (map (\<lambda>r. r ! i) (chans ta))"
      by blast
    then have "target_freqs ! i \<in> set freqs \<longrightarrow> cl ! i = target_freqs ! i"
      using nearest_exact [OF ind(1)] by simp
    with ind show ?thesis by blast
  qed
  with run shp show ?thesis by blast
qed

theorem nearestBinAmplitudes_first_nearest_bin_witness:
  "[0, 1 / 2, 1, 3 / 2] \<noteq> ([] :: real list) \<and>
   length [0, 1 / 2, 1, 3 / 2 :: real] = shape1 \<lparr>shape1 = 4, chans = [[1, 2, 3, 4], [5, 6, 7, 8]]\<rparr> \<and>
   nearestBinAmplitudes [0, 1 / 2, 1, 3 / 2] \<lparr>shape1 = 4, chans = [[1, 2, 3, 4], [5, 6, 7, 8]]\<rparr>
       [3 / 4, 1]
     = Inr ([1 / 2, 1], \<lparr>shape1 = 2, chans = [[2, 3], [6, 7]]\<rparr>) \<and>
   first_minimum (map (\<lambda>x. \<bar>x - 3 / 4\<bar>) [0, 1 / 2, 1, 3 / 2]) 1 \<and>
   (\<exists>closest_freqs target_amp.
      nearestBinAmplitudes [0, 1 / 2, 1, 3 / 2]
          \<lparr>shape1 = 4, chans = [[1, 2, 3, 4], [5, 6, 7, 8]]\<rparr> [3 / 4, 1]
        = Inr (closest_freqs, target_amp) \<and> length closest_freqs = 2)"
proof -
  have h1: "[0, 1 / 2, 1, 3 / 2] \<noteq> ([] :: real list)" by simp
  have h2: "length [0, 1 / 2, 1, 3 / 2 :: real]
              = shape1 \<lparr>shape1 = 4, chans = [[1, 2, 3, 4], [5, 6, 7, 8]]\<rparr>"
    by simp
  have ev: "nearestBinAmplitudes [0, 1 / 2, 1, 3 / 2]
              \<lparr>shape1 = 4, chans = [[1, 2, 3, 4], [5, 6, 7, 8]]\<rparr> [3 / 4, 1]
            = Inr ([1 / 2, 1], \<lparr>shape1 = 2, chans = [[2, 3], [6, 7]]\<rparr>)"
    by code_simp
  have fm: "first_minimum (map (\<lambda>x. \<bar>x - 3 / 4\<bar>) [0, 1 / 2, 1, 3 / 2]) 1"
    by (simp add: first_minimum_def)
  from nearestBinAmplitudes_first_nearest_bin [OF h1 h2, of "[3 / 4, 1]"] ev fm
  show ?thesis by simp
qed

text \<open>
  Claim C6.  Whenever \<open>baselineSubtract\<close> returns a matrix, every entry of it is
  non-negative, and every entry of any matrix that \<open>smooth\<close> returns for it is
  non-negative too.
\<close>

theorem normalized_amplitudes_nonnegative:
  assumes "baselineSubtract amp bins = Inr sub_amp"
  shows "all_entries (\<lambda>v. 0 \<le> v) sub_amp \<and>
         (\<forall>offs n norm_amp. smooth sub_amp offs n = Inr norm_amp \<longrightarrow>
                              all_entries (\<lambda>v. 0 \<le> v) norm_amp)"
proof -
  from assms obtain s where sub: "sub_amp = clamp_negative s"
    by (auto simp: baselineSubtract_def split: sum.splits)
  then have nn: "all_entries (\<lambda>v. 0 \<le> v) sub_amp"
    by (simp add: clamp_negative_nonneg)
  have ws: "well_shaped sub_amp"
    using baselineSubtract_well_shaped [OF assms] by simp
  have "all_entries (\<lambda>v. 0 \<le> v) norm_amp" if "smooth sub_amp offs n = Inr norm_amp"
    for offs n norm_amp
    using that ws nn
    by (rule smooth_all_entries) (simp_all add: mean_axis1_nonneg)
  with nn show ?thesis by blast
qed

theorem normalized_amplitudes_nonnegative_witness:
  "baselineSubtract \<lparr>shape1 = 7, chans = [[1, 0, 0, 10, 0, 0, 0]]\<rparr> reference_bins
     = Inr \<lparr>shape1 = 7, chans = [[0, 0, 0, 20 / 3, 0, 0, 0]]\<rparr> \<and>
   all_entries (\<lambda>v. 0 \<le> v) \<lparr>shape1 = 7, chans = [[0, 0, 0, 20 / 3, 0, 0, 0]]\<rparr> \<and>
   smooth \<lparr>shape1 = 7, chans = [[0, 0, 0, 20 / 3, 0, 0, 0]]\<rparr> bins_to_avg 7
     = Inr \<lparr>shape1 = 7, chans = [[0, 0, 20 / 9, 20 / 9, 20 / 9, 0, 0]]\<rparr> \<and>
   all_entries (\<lambda>v. 0 \<le> v) \<lparr>shape1 = 7, chans = [[0, 0, 20 / 9, 20 / 9, 20 / 9, 0, 0]]\<rparr>"
proof -
  have b: "baselineSubtract \<lparr>shape1 = 7, chans = [[1, 0, 0, 10, 0, 0, 0]]\<rparr> reference_bins
     = Inr \<lparr>shape1 = 7, chans = [[0, 0, 0, 20 / 3, 0, 0, 0]]\<rparr>"
    by code_simp
  have s: "smooth \<lparr>shape1 = 7, chans = [[0, 0, 0, 20 / 3, 0, 0, 0]]\<rparr> bins_to_avg 7
     = Inr \<lparr>shape1 = 7, chans = [[0, 0, 20 / 9, 20 / 9, 20 / 9, 0, 0]]\<rparr>"
    by code_simp
  from normalized_amplitudes_nonnegative [OF b] b s show ?thesis
    by blast
qed

text \<open>
  Claim C7.  For a signal with at least one sample and a positive sampling rate
  the FFT cell returns a frequency axis and an amplitude matrix of the same
  width: the axis is \<open>k * sampling_rate / T\<close> for \<open>k = 0, ..., (T-1) div 2\<close>, so
  it starts at bin 0, is non-negative and strictly increasing, and the matrix
  keeps exactly the leading bins of each channel's transform.
\<close>

theorem computeSpectrum_spectrum_invariant:
  assumes "0 < shape1 data" and "0 < sampling_rate"
  shows "\<exists>freqs amp.
           computeSpectrum data sampling_rate = Inr (freqs, amp) \<and>
           length freqs = shape1 amp \<and> well_shaped amp \<and> shape0 amp = shape0 data \<and>
           list_all (\<lambda>f. 0 \<le> f) freqs \<and> sorted_wrt (\<lambda>f g. f < g) freqs \<and>
           freqs = map (\<lambda>k. real k * (sampling_rate / real (shape1 data)))
                       [0..<(shape1 data - 1) div 2 + 1] \<and>
           chans amp = map (\<lambda>r. take (length freqs) (fft_abs r (shape1 data))) (chans data)"
proof -
  let ?c = "sampling_rate / real (shape1 data)"
  let ?fs = "map (\<lambda>k. real k * ?c) [0..<(shape1 data - 1) div 2 + 1]"
  let ?a = "\<lparr>shape1 = (shape1 data - 1) div 2 + 1,
             chans = map (\<lambda>r. take ((shape1 data - 1) div 2 + 1) (fft_abs r (shape1 data)))
                         (chans data)\<rparr>"
  have run: "computeSpectrum data sampling_rate = Inr (?fs, ?a)"
    by (rule computeSpectrum_positive_rate [OF assms])
  have c: "0 < ?c" using assms by simp
  have "0 \<le> real k * ?c" for k
    by (rule mult_nonneg_nonneg) (use c in simp_all)
  then have nonneg: "list_all (\<lambda>f. 0 \<le> f) ?fs"
    unfolding list_all_iff by auto
  have "real j * ?c < real k * ?c" if "j < k" for j k :: nat
    by (rule mult_strict_right_mono) (use that c in simp_all)
  then have "sorted_wrt (\<lambda>j k. real j * ?c < real k * ?c) [0..<(shape1 data - 1) div 2 + 1]"
    by (intro sorted_wrt_mono_rel [OF _ sorted_wrt_upt]) blast
  then have incr: "sorted_wrt (\<lambda>f g. f < g) ?fs"
    unfolding sorted_wrt_map .
  from computeSpectrum_shape [OF run] have "well_shaped ?a" "shape0 ?a = shape0 data"
    by simp_all
  with run nonneg incr show ?thesis
    by (intro exI [of _ ?fs] exI [of _ ?a]) simp
qed

theorem computeSpectrum_spectrum_invariant_witness:
  "0 < shape1 \<lparr>shape1 = 4, chans = [[1, 2, 3, 4]]\<rparr> \<and> (0::real) < 8 \<and>
   (\<exists>freqs amp. computeSpectrum \<lparr>shape1 = 4, chans = [[1, 2, 3, 4]]\<rparr> 8 = Inr (freqs, amp) \<and>
      freqs = [0, 2] \<and> length freqs = shape1 amp \<and> sorted_wrt (\<lambda>f g. f < g) freqs)"
proof -
  have h1: "0 < shape1 \<lparr>shape1 = 4, chans = [[1, 2, 3, 4]]\<rparr>" by simp
  have h2: "(0::real) < 8" by simp
  have "[0..<(4 - 1) div 2 + 1] = [0, Suc 0]" by (simp add: upt_rec)
  with computeSpectrum_spectrum_invariant [OF h1 h2] show ?thesis
    by auto
qed

text \<open>
  Claim C8, as stated, fails: on an all-zero matrix with one channel and three
  bins the notebook's baseline subtraction raises an index error and returns no
  matrix.
\<close>

theorem zero_input_three_bins_fails:
  "baselineSubtract \<lparr>shape1 = 3, chans = [[0, 0, 0]]\<rparr> reference_bins = Inl IndexError"
  by code_simp

text \<open>
  Claim C8, amended.  For a well-shaped all-zero amplitude matrix, every matrix
  that \<open>baselineSubtract\<close> returns is all-zero with the same shape, it does
  return one with the notebook's reference bins when there are no bins or at
  least six, and \<open>smooth\<close> with offsets that include 0 returns an all-zero
  matrix of the same shape.
\<close>

theorem zero_amplitudes_stay_zero:
  assumes "well_shaped amp" and "all_entries (\<lambda>v. v = 0) amp"
  shows "(\<forall>bins sub. baselineSubtract amp bins = Inr sub \<longrightarrow>
            all_entries (\<lambda>v. v = 0) sub \<and> shape1 sub = shape1 amp \<and> shape0 sub = shape0 amp) \<and>
         (shape1 amp = 0 \<or> 6 \<le> shape1 amp \<longrightarrow>
            (\<exists>sub. baselineSubtract amp reference_bins = Inr sub)) \<and>
         (\<forall>offs. 0 \<in> set offs \<longrightarrow>
            (\<exists>norm_amp. smooth amp offs (shape1 amp) = Inr norm_amp \<and>
               all_entries (\<lambda>v. v = 0) norm_amp \<and>
               shape1 norm_amp = shape1 amp \<and> shape0 norm_amp = shape0 amp))"
proof (intro conjI allI impI)
  fix bins sub assume "baselineSubtract amp bins = Inr sub"
  then show "all_entries (\<lambda>v. v = 0) sub" "shape1 sub = shape1 amp" "shape0 sub = shape0 amp"
    using baselineSubtract_zero [OF _ assms] baselineSubtract_well_shaped by simp_all
next
  assume "shape1 amp = 0 \<or> 6 \<le> shape1 amp"
  then show "\<exists>sub. baselineSubtract amp reference_bins = Inr sub"
    using baselineSubtract_entries [OF assms(1)] baselineSubtract_no_bins [of amp reference_bins]
    by blast
next
  fix offs :: "int list" assume "0 \<in> set offs"
  from smooth_total [OF assms(1) this] obtain b where b: "smooth amp offs (shape1 amp) = Inr b"
      "shape1 b = shape1 amp" "shape0 b = shape0 amp"
    by blast
  from b(1) assms have "all_entries (\<lambda>v. v = 0) b"
    by (rule smooth_all_entries) (simp_all add: mean_axis1_zero)
  with b show "\<exists>norm_amp. smooth amp offs (shape1 amp) = Inr norm_amp \<and>
               all_entries (\<lambda>v. v = 0) norm_amp \<and>
               shape1 norm_amp = shape1 amp \<and> shape0 norm_amp = shape0 amp"
    by blast
qed

theorem zero_amplitudes_stay_zero_witness:
  "well_shaped (zeros 2 7) \<and> all_entries (\<lambda>v. v = 0) (zeros 2 7) \<and>
   (shape1 (zeros 2 7) = 0 \<or> 6 \<le> shape1 (zeros 2 7)) \<and> 0 \<in> set bins_to_avg \<and>
   baselineSubtract (zeros 2 7) reference_bins = Inr (zeros 2 7) \<and>
   all_entries (\<lambda>v. v = 0) (zeros 2 7) \<and>
   (\<exists>norm_amp. smooth (zeros 2 7) bins_to_avg (shape1 (zeros 2 7)) = Inr norm_amp \<and>
      all_entries (\<lambda>v. v = 0) norm_amp)"
proof -
  have w: "well_shaped (zeros 2 7)" by (rule well_shaped_zeros)
  have z: "all_entries (\<lambda>v. v = 0) (zeros 2 7)" by (simp add: all_entries_zeros)
  have n: "shape1 (zeros 2 7) = 0 \<or> 6 \<le> shape1 (zeros 2 7)" by (simp add: shape_zeros)
  have o: "0 \<in> set bins_to_avg" by (simp add: bins_to_avg_def)
  have b: "baselineSubtract (zeros 2 7) reference_bins = Inr (zeros 2 7)" by code_simp
  from zero_amplitudes_stay_zero [OF w z] n o b w z show ?thesis
    by blast
qed

text \<open>
  Claim C9.  Smoothing is not idempotent: on one channel \<open>[0, 3, 0]\<close> a first
  pass gives \<open>[3/2, 1, 3/2]\<close> and a second pass gives \<open>[5/4, 4/3, 5/4]\<close>.
\<close>

theorem smooth_not_idempotent:
  "\<exists>a s1 s2. smooth a bins_to_avg (shape1 a) = Inr s1 \<and>
              smooth s1 bins_to_avg (shape1 s1) = Inr s2 \<and> s2 \<noteq> s1"
proof (intro exI conjI)
  show "smooth \<lparr>shape1 = 3, chans = [[0, 3, 0]]\<rparr> bins_to_avg
          (shape1 \<lparr>shape1 = 3, chans = [[0, 3, 0]]\<rparr>)
        = Inr \<lparr>shape1 = 3, chans = [[3 / 2, 1, 3 / 2]]\<rparr>"
    by code_simp
  show "smooth \<lparr>shape1 = 3, chans = [[3 / 2, 1, 3 / 2]]\<rparr> bins_to_avg
          (shape1 \<lparr>shape1 = 3, chans = [[3 / 2, 1, 3 / 2]]\<rparr>)
        = Inr \<lparr>shape1 = 3, chans = [[5 / 4, 4 / 3, 5 / 4]]\<rparr>"
    by code_simp
  show "\<lparr>shape1 = 3, chans = [[5 / 4, 4 / 3, 5 / 4]]\<rparr>
          \<noteq> \<lparr>shape1 = 3, chans = [[3 / 2, 1, 3 / 2 :: real]]\<rparr>"
    by simp
qed

text \<open>
  Claim C10.  Whenever \<open>computeSpectrum\<close> returns a frequency axis and an
  amplitude matrix, the FFT cell leaves exactly these in the workspace as
  \<open>freqs\<close> and \<open>amp\<close>, whether or not its normalisation loops then raise.  The
  target-frequency cell run afterwards returns, whatever \<open>norm_amp\<close> holds, a
  \<open>target_amp\<close> whose entry for channel \<open>c\<close> and target \<open>i\<close> is the entry of that
  raw \<open>amp\<close> for channel \<open>c\<close> at the lowest-indexed bin nearest to the target.
\<close>

theorem target_amp_from_raw_amp:
  assumes "computeSpectrum data sampling_rate = Inr (fs, a)"
  shows "\<exists>err w.
           frequency_tagging_cell w0 data sampling_rate = (err, w) \<and>
           ws_freqs w = Some fs \<and> ws_amp w = Some a \<and>
           (\<forall>n. \<exists>closest_freqs target_amp.
              target_cell (w\<lparr>ws_norm_amp := n\<rparr>) target_freqs = Inr (closest_freqs, target_amp) \<and>
              shape1 target_amp = length target_freqs \<and> shape0 target_amp = shape0 a \<and>
              well_shaped target_amp \<and>
              (\<forall>i<length target_freqs.
                 \<exists>ind. first_minimum (map (\<lambda>x. \<bar>x - target_freqs ! i\<bar>) fs) ind \<and>
                   (\<forall>c<shape0 a. chans target_amp ! c ! i = chans a ! c ! ind)))"
proof -
  from frequency_tagging_cell_keeps_spectrum [OF assms, of w0]
  obtain err w where w: "frequency_tagging_cell w0 data sampling_rate = (err, w)"
      "ws_freqs w = Some fs" "ws_amp w = Some a"
    by blast
  from computeSpectrum_shape [OF assms] have ne: "fs \<noteq> []" and len: "length fs = shape1 a"
    by simp_all
  from nearestBinAmplitudes_raw_entries [OF ne len, of target_freqs]
  obtain cl ta where run: "nearestBinAmplitudes fs a target_freqs = Inr (cl, ta)"
      and shp: "shape1 ta = length target_freqs" "shape0 ta = shape0 a" "well_shaped ta"
      and ent: "\<forall>i<length target_freqs.
          \<exists>ind. first_minimum (map (\<lambda>x. \<bar>x - target_freqs ! i\<bar>) fs) ind \<and>
            cl ! i = fs ! ind \<and> (\<forall>c<shape0 a. chans ta ! c ! i = chans a ! c ! ind)"
    by blast
  have ent': "\<forall>i<length target_freqs.
          \<exists>ind. first_minimum (map (\<lambda>x. \<bar>x - target_freqs ! i\<bar>) fs) ind \<and>
            (\<forall>c<shape0 a. chans ta ! c ! i = chans a ! c ! ind)"
  proof (intro allI impI)
    fix i assume "i < length target_freqs"
    with ent obtain ind where "first_minimum (map (\<lambda>x. \<bar>x - target_freqs ! i\<bar>) fs) ind"
        and "\<forall>c<shape0 a. chans ta ! c ! i = chans a ! c ! ind"
      by blast
    then show "\<exists>ind. first_minimum (map (\<lambda>x. \<bar>x - target_freqs ! i\<bar>) fs) ind \<and>
                 (\<forall>c<shape0 a. chans ta ! c ! i = chans a ! c ! ind)"
      by (intro exI [of _ ind] conjI)
  qed
  have tc: "target_cell (w\<lparr>ws_norm_amp := n\<rparr>) target_freqs = Inr (cl, ta)" for n
    by (simp add: target_cell_def w(2,3) run)
  have "\<exists>closest_freqs target_amp.
          target_cell (w\<lparr>ws_norm_amp := n\<rparr>) target_freqs = Inr (closest_freqs, target_amp) \<and>
          shape1 target_amp = length target_freqs \<and> shape0 target_amp = shape0 a \<and>
          well_shaped target_amp \<and>
          (\<forall>i<length target_freqs.
             \<exists>ind. first_minimum (map (\<lambda>x. \<bar>x - target_freqs ! i\<bar>) fs) ind \<and>
               (\<forall>c<shape0 a. chans target_amp ! c ! i = chans a ! c ! ind))" for n
    by (intro exI [of _ cl] exI [of _ ta] conjI) (rule tc shp ent')+
  with w show ?thesis
    by (intro exI [of _ err] exI [of _ w] conjI allI)
qed

theorem target_amp_from_raw_amp_witness:
  "computeSpectrum \<lparr>shape1 = 12, chans = [[3, 0, 0, 0, 0, 0, 1, 0, 0, 0, 0, 0]]\<rparr> 12
     = Inr ([0, 1, 2, 3, 4, 5], \<lparr>shape1 = 6, chans = [[4, 2, 4, 2, 4, 2]]\<rparr>) \<and>
   frequency_tagging_cell \<lparr>ws_freqs = None, ws_amp = None, ws_norm_amp = None\<rparr>
       \<lparr>shape1 = 12, chans = [[3, 0, 0, 0, 0, 0, 1, 0, 0, 0, 0, 0]]\<rparr> 12
     = (None, \<lparr>ws_freqs = Some [0, 1, 2, 3, 4, 5],
               ws_amp = Some \<lparr>shape1 = 6, chans = [[4, 2, 4, 2, 4, 2]]\<rparr>,
               ws_norm_amp =
                 Some \<lparr>shape1 = 6, chans = [[2 / 3, 8 / 9, 4 / 9, 8 / 9, 4 / 9, 2 / 3]]\<rparr>\<rparr>) \<and>
   target_cell \<lparr>ws_freqs = Some [0, 1, 2, 3, 4, 5],
                ws_amp = Some \<lparr>shape1 = 6, chans = [[4, 2, 4, 2, 4, 2]]\<rparr>,
                ws_norm_amp =
                  Some \<lparr>shape1 = 6, chans = [[2 / 3, 8 / 9, 4 / 9, 8 / 9, 4 / 9, 2 / 3]]\<rparr>\<rparr>
       [4 / 5, 6 / 5, 12 / 5]
     = Inr ([1, 1, 2], \<lparr>shape1 = 3, chans = [[2, 2, 4]]\<rparr>) \<and>
   (\<forall>n. \<exists>closest_freqs target_amp.
      target_cell \<lparr>ws_freqs = Some [0, 1, 2, 3, 4, 5],
                   ws_amp = Some \<lparr>shape1 = 6, chans = [[4, 2, 4, 2, 4, 2]]\<rparr>,
                   ws_norm_amp = n\<rparr> [4 / 5, 6 / 5, 12 / 5]
        = Inr (closest_freqs, target_amp) \<and>
      shape1 target_amp = 3 \<and> shape0 target_amp = 1) \<and>
   computeSpectrum \<lparr>shape1 = 1, chans = [[3]]\<rparr> 1 = Inr ([0], \<lparr>shape1 = 1, chans = [[3]]\<rparr>) \<and>
   frequency_tagging_cell \<lparr>ws_freqs = None, ws_amp = None, ws_norm_amp = None\<rparr>
       \<lparr>shape1 = 1, chans = [[3]]\<rparr> 1
     = (Some IndexError,
        \<lparr>ws_freqs = Some [0], ws_amp = Some \<lparr>shape1 = 1, chans = [[3]]\<rparr>,
         ws_norm_amp = None\<rparr>) \<and>
   target_cell \<lparr>ws_freqs = Some [0], ws_amp = Some \<lparr>shape1 = 1, chans = [[3]]\<rparr>,
                ws_norm_amp = None\<rparr> [4 / 5]
     = Inr ([0], \<lparr>shape1 = 1, chans = [[3]]\<rparr>)"
proof -
  let ?W0 = "\<lparr>ws_freqs = None, ws_amp = None, ws_norm_amp = None\<rparr>"
  let ?D = "\<lparr>shape1 = 12, chans = [[3, 0, 0, 0, 0, 0, 1, 0, 0, 0, 0, 0]]\<rparr> :: array2"
  let ?A = "\<lparr>shape1 = 6, chans = [[4, 2, 4, 2, 4, 2]]\<rparr> :: array2"
  let ?N = "\<lparr>shape1 = 6, chans = [[2 / 3, 8 / 9, 4 / 9, 8 / 9, 4 / 9, 2 / 3]]\<rparr> :: array2"
  let ?T = "[4 / 5, 6 / 5, 12 / 5] :: real list"
  note sp = computeSpectrum_two_impulses
  have sub: "baselineSubtract ?A reference_bins
               = Inr \<lparr>shape1 = 6, chans = [[4 / 3, 0, 4 / 3, 0, 4 / 3, 0]]\<rparr>"
    by code_simp
  have sm: "smooth \<lparr>shape1 = 6, chans = [[4 / 3, 0, 4 / 3, 0, 4 / 3, 0]]\<rparr> bins_to_avg 6 = Inr ?N"
    by code_simp
  have len: "length [0, 1, 2, 3, 4, 5 :: real] = 6" by simp
  have cell: "frequency_tagging_cell ?W0 ?D 12
                = (None, \<lparr>ws_freqs = Some [0, 1, 2, 3, 4, 5], ws_amp = Some ?A,
                          ws_norm_amp = Some ?N\<rparr>)"
    unfolding frequency_tagging_cell_def sp
    by (simp only: sum.case prod.case Let_def sub sm len workspace.update_convs)
  have tc: "target_cell \<lparr>ws_freqs = Some [0, 1, 2, 3, 4, 5], ws_amp = Some ?A,
                         ws_norm_amp = Some ?N\<rparr> ?T
              = Inr ([1, 1, 2], \<lparr>shape1 = 3, chans = [[2, 2, 4]]\<rparr>)"
    by code_simp
  have anyn: "\<forall>n. \<exists>closest_freqs target_amp.
      target_cell \<lparr>ws_freqs = Some [0, 1, 2, 3, 4, 5], ws_amp = Some ?A, ws_norm_amp = n\<rparr> ?T
        = Inr (closest_freqs, target_amp) \<and>
      shape1 target_amp = 3 \<and> shape0 target_amp = 1"
  proof
    fix n
    from target_amp_from_raw_amp [OF sp, of ?W0 ?T]
    obtain err w where w: "frequency_tagging_cell ?W0 ?D 12 = (err, w)"
        and ent: "\<forall>n. \<exists>closest_freqs target_amp.
            target_cell (w\<lparr>ws_norm_amp := n\<rparr>) ?T = Inr (closest_freqs, target_amp) \<and>
            shape1 target_amp = length ?T \<and> shape0 target_amp = shape0 ?A \<and>
            well_shaped target_amp \<and>
            (\<forall>i<length ?T.
               \<exists>ind. first_minimum (map (\<lambda>x. \<bar>x - ?T ! i\<bar>) [0, 1, 2, 3, 4, 5]) ind \<and>
                 (\<forall>c<shape0 ?A. chans target_amp ! c ! i = chans ?A ! c ! ind))"
      by (elim exE conjE) (rule that, assumption+)
    from w have w_eq: "w = \<lparr>ws_freqs = Some [0, 1, 2, 3, 4, 5], ws_amp = Some ?A,
                            ws_norm_amp = Some ?N\<rparr>"
      unfolding cell by simp
    from ent [rule_format, of n] obtain cl ta where
        r: "target_cell (w\<lparr>ws_norm_amp := n\<rparr>) ?T = Inr (cl, ta)"
          "shape1 ta = length ?T" "shape0 ta = shape0 ?A"
      by (elim exE conjE) (rule that, assumption+)
    have "w\<lparr>ws_norm_amp := n\<rparr>
            = \<lparr>ws_freqs = Some [0, 1, 2, 3, 4, 5], ws_amp = Some ?A, ws_norm_amp = n\<rparr>"
      unfolding w_eq by simp
    with r show "\<exists>closest_freqs target_amp.
        target_cell \<lparr>ws_freqs = Some [0, 1, 2, 3, 4, 5], ws_amp = Some ?A, ws_norm_amp = n\<rparr> ?T
          = Inr (closest_freqs, target_amp) \<and>
        shape1 target_amp = 3 \<and> shape0 target_amp = 1"
      by (intro exI [of _ cl] exI [of _ ta]) (simp add: shape0_def)
  qed
  let ?D1 = "\<lparr>shape1 = 1, chans = [[3]]\<rparr> :: array2"
  note sp1 = computeSpectrum_one_sample
  have sub1: "baselineSubtract ?D1 reference_bins = Inl IndexError"
    by code_simp
  have cell1: "frequency_tagging_cell ?W0 ?D1 1
                 = (Some IndexError, \<lparr>ws_freqs = Some [0], ws_amp = Some ?D1, ws_norm_amp = None\<rparr>)"
    unfolding frequency_tagging_cell_def sp1
    by (simp only: sum.case prod.case Let_def sub1 workspace.update_convs)
  have tc1: "target_cell \<lparr>ws_freqs = Some [0], ws_amp = Some ?D1, ws_norm_amp = None\<rparr> [4 / 5]
               = Inr ([0], ?D1)"
    by code_simp
  from sp cell tc anyn sp1 cell1 tc1 show ?thesis
    by (intro conjI)
qed

end
